theory Spec2Isabelle
  imports Main
begin

section \<open>JavaScript sets of object references\<close>

text \<open>
  A JavaScript \<open>Set\<close> iterates in insertion order and holds every element once.  It is
  modelled as a list without repetitions: \<open>add\<close> appends an element that is not yet
  present, \<open>delete\<close> removes it, and \<open>new Set(xs)\<close> adds the elements of an array one
  after the other.
\<close>

definition set_add :: "'a \<Rightarrow> 'a list \<Rightarrow> 'a list" where
  "set_add x xs = (if x \<in> set xs then xs else xs @ [x])"

definition set_delete :: "'a \<Rightarrow> 'a list \<Rightarrow> 'a list" where
  "set_delete x xs = removeAll x xs"

definition new_Set :: "'a list \<Rightarrow> 'a list" where
  "new_Set xs = fold set_add xs []"

section \<open>The dependency graph (PackSpider)\<close>

subsection \<open>Nodes and the object heap\<close>

text \<open>
  \<open>File\<close> objects are compared by identity, and the graph is mutated through shared
  references, so objects live in a heap: an address is the number of the allocation, and
  the heap maps an address to the fields of the object.
\<close>

type_synonym addr = nat

record IFile =
  kind :: string
  name :: string
  filePath :: string

record File =
  filePath :: string
  "identifier" :: string
  parents :: "addr list"
  connectedFiles :: "addr list"

type_synonym heap = "addr \<Rightarrow> File"

text \<open>\<open>String.prototype.split\<close> on a one-character separator: never the empty list.\<close>

fun split :: "char \<Rightarrow> string \<Rightarrow> string list" where
  "split sep [] = [[]]"
| "split sep (c # cs) =
     (if c = sep then [] # split sep cs
      else (case split sep cs of
              [] \<Rightarrow> [[c]]
            | w # ws \<Rightarrow> (c # w) # ws))"

definition fileName :: "File \<Rightarrow> string" where
  "fileName f = last (split (CHR ''/'') (File.filePath f))"

definition isFeatureFolder :: "File \<Rightarrow> bool" where
  "isFeatureFolder f = (length (parents f) = 0)"

subsection \<open>deepConnectedFiles and toDirectory\<close>

text \<open>
  The getter \<open>deepConnectedFiles\<close> starts a new set, and for every connected file adds
  the file and then everything that the same getter returns for that file.  There is no
  set of visited nodes: every call recurses into all connected files again.  The
  recursion need not end, so the model is a partial function and \<open>None\<close> means that
  the call does not return.  \<open>deepFiles_forEach h fs deepFiles\<close> is the \<open>forEach\<close>
  over the connected files \<open>fs\<close> that are still to come.
\<close>

partial_function (option) deepFiles_forEach :: "heap \<Rightarrow> addr list \<Rightarrow> addr list \<Rightarrow> addr list option" where
  "deepFiles_forEach h fs deepFiles =
     (case fs of
        [] \<Rightarrow> Some deepFiles
      | file # rest \<Rightarrow>
          Option.bind (deepFiles_forEach h (connectedFiles (h file)) [])
            (\<lambda>sub. deepFiles_forEach h rest (fold set_add sub (set_add file deepFiles))))"

declare deepFiles_forEach.simps [code]

definition deepConnectedFiles :: "heap \<Rightarrow> addr \<Rightarrow> addr list option" where
  "deepConnectedFiles h this = deepFiles_forEach h (connectedFiles (h this)) []"

text \<open>
  The set \<open>deepFiles\<close> of \<open>toDirectory\<close> after \<open>deepFiles.add(this)\<close>.  (The
  \<open>console.log\<close> for one path changes nothing and is left out.)
\<close>

definition toDirectory_deepFiles :: "heap \<Rightarrow> addr \<Rightarrow> addr list option" where
  "toDirectory_deepFiles h this = map_option (set_add this) (deepConnectedFiles h this)"

definition toIFile :: "File \<Rightarrow> IFile" where
  "toIFile f = \<lparr>kind = ''file'', name = fileName f, filePath = File.filePath f\<rparr>"

definition toDirectory :: "heap \<Rightarrow> addr \<Rightarrow> IFile list option" where
  "toDirectory h this = map_option (map (\<lambda>file. toIFile (h file))) (toDirectory_deepFiles h this)"

text \<open>The out-edges of the graph, and the nodes that a node reaches (itself included).\<close>

definition links :: "heap \<Rightarrow> (addr \<times> addr) set" where
  "links h = {(a, c). c \<in> set (connectedFiles (h a))}"

definition reachable :: "heap \<Rightarrow> addr \<Rightarrow> addr set" where
  "reachable h a = (links h)\<^sup>* `` {a}"

text \<open>
  The child relation below a node: \<open>(c, b)\<close> when \<open>b\<close> is reachable from \<open>a\<close> and links
  \<open>c\<close>.  It is well-founded exactly when no endless chain of links starts at \<open>a\<close>; in a
  finite graph that is: no cycle is reachable from \<open>a\<close>.
\<close>

definition links_below :: "heap \<Rightarrow> addr \<Rightarrow> (addr \<times> addr) set" where
  "links_below h a = {(c, b). b \<in> reachable h a \<and> c \<in> set (connectedFiles (h b))}"

text \<open>Two nodes that link each other: A (address 0) links B (address 1), and B links A.\<close>

definition emptyFile :: File where
  "emptyFile = \<lparr>filePath = '''', identifier = ''unknown'', parents = [], connectedFiles = []\<rparr>"

definition cycle_heap :: heap where
  "cycle_heap = (\<lambda>_. emptyFile)
     (0 := \<lparr>filePath = ''BP/a.json'', identifier = ''unknown'', parents = [1], connectedFiles = [1]\<rparr>,
      1 := \<lparr>filePath = ''BP/b.json'', identifier = ''unknown'', parents = [0], connectedFiles = [0]\<rparr>)"

text \<open>A diamond without a cycle: 3 links 1 and 2, and both link 0.\<close>

definition diamond_heap :: heap where
  "diamond_heap = (\<lambda>_. emptyFile)
     (0 := \<lparr>filePath = ''BP/shared.json'', identifier = ''unknown'', parents = [1, 2], connectedFiles = []\<rparr>,
      1 := \<lparr>filePath = ''BP/l.json'', identifier = ''unknown'', parents = [3], connectedFiles = [0]\<rparr>,
      2 := \<lparr>filePath = ''BP/r.json'', identifier = ''unknown'', parents = [3], connectedFiles = [0]\<rparr>,
      3 := \<lparr>filePath = ''BP/top.json'', identifier = ''unknown'', parents = [], connectedFiles = [1, 2]\<rparr>)"

subsection \<open>File.create\<close>

text \<open>
  The connection rules of a file type (\<open>IPackSpiderFile\<close>), with the optional fields
  as options, and \<open>find: string | string[]\<close> as a sum.
\<close>

record IFileDescription =
  fd_find :: "string + string list"
  fd_where :: string
  fd_matches :: string

record IPackSpiderFile =
  connect :: "IFileDescription list option"
  includeFiles :: "string list option"
  sharedFiles :: "string list option"

text \<open>
  What \<open>File.create\<close> reads and never writes: the identifier of a path's file type
  (\<open>FileType.getId\<close>), the connection rules per file type, and two queries of the
  lightning store, whose code is not part of the sources at hand:
  \<open>lightningStore_data path fileType\<close> is the \<open>data\<close> field of
  \<open>lightningStore.get(path, fileType)\<close> (\<open>None\<close> when the record has none), and
  \<open>lightningStore_findMultiple\<close> is \<open>lightningStore.findMultiple\<close>.
\<close>

record PackSpider =
  getId :: "string \<Rightarrow> string"
  packSpiderFiles :: "string \<rightharpoonup> IPackSpiderFile"
  lightningStore_data :: "string \<Rightarrow> string \<Rightarrow> (string \<rightharpoonup> string list) option"
  lightningStore_findMultiple :: "string list \<Rightarrow> string \<Rightarrow> string list \<Rightarrow> string list"

text \<open>
  The mutable state: the heap of \<open>File\<close> objects, the address of the next allocation,
  and the global registry \<open>fileStore\<close>, keyed by file type and then by path.
\<close>

record world =
  heap :: heap
  nextAddr :: addr
  fileStore :: "string \<rightharpoonup> (string \<rightharpoonup> addr)"

datatype error = TypeError

text \<open>\<open>fileStore[fileType]?.[filePath]\<close>\<close>

definition storedFile_of :: "world \<Rightarrow> string \<Rightarrow> string \<Rightarrow> addr option" where
  "storedFile_of w fileType path =
     (case fileStore w fileType of None \<Rightarrow> None | Some files \<Rightarrow> files path)"

definition addParent :: "addr \<Rightarrow> addr \<Rightarrow> heap \<Rightarrow> heap" where
  "addParent this parent h = h(this := (h this)\<lparr>parents := set_add parent (parents (h this))\<rparr>)"

definition removeParent :: "addr \<Rightarrow> addr \<Rightarrow> heap \<Rightarrow> heap" where
  "removeParent this parent h = h(this := (h this)\<lparr>parents := set_delete parent (parents (h this))\<rparr>)"

definition setIdentifier :: "addr \<Rightarrow> string \<Rightarrow> heap \<Rightarrow> heap" where
  "setIdentifier this ident h = h(this := (h this)\<lparr>identifier := ident\<rparr>)"

text \<open>
  \<open>storedFile.connectedFiles.forEach(file => file.removeParent(storedFile))\<close>
\<close>

definition detach :: "addr \<Rightarrow> world \<Rightarrow> world" where
  "detach storedFile w =
     w\<lparr>heap := fold (\<lambda>file h. removeParent file storedFile h)
                  (connectedFiles (heap w storedFile)) (heap w)\<rparr>"

text \<open>
  The constructor: a new object with the field initialisers, then the parents are added,
  the connected files become a set, and every connected file gets the new object as a
  parent.
\<close>

definition new_File :: "string \<Rightarrow> addr list \<Rightarrow> addr list \<Rightarrow> world \<Rightarrow> addr \<times> world" where
  "new_File path connected parentsArg w =
     (let this = nextAddr w;
          h0 = (heap w)(this := \<lparr>filePath = path, identifier = ''unknown'',
                                  parents = [], connectedFiles = []\<rparr>);
          h1 = fold (\<lambda>parent h. addParent this parent h) parentsArg h0;
          h2 = h1(this := (h1 this)\<lparr>connectedFiles := new_Set connected\<rparr>);
          h3 = fold (\<lambda>file h. addParent file this h) connected h2
      in (this, w\<lparr>heap := h3, nextAddr := Suc this\<rparr>))"

text \<open>
  The paths that \<open>File.create\<close> links, in the order of its three loops: the directly
  referenced files, the dynamically referenced files and the shared files.  They depend
  only on what \<open>File.create\<close> never writes, so the three loops are one loop over the
  three lists in a row.
\<close>

definition cacheData_of :: "PackSpider \<Rightarrow> string \<Rightarrow> string \<Rightarrow> (string \<rightharpoonup> string list)" where
  "cacheData_of packSpider path fileType =
     (case lightningStore_data packSpider path fileType of None \<Rightarrow> Map.empty | Some d \<Rightarrow> d)"

definition packSpiderFile_of :: "PackSpider \<Rightarrow> string \<Rightarrow> IPackSpiderFile" where
  "packSpiderFile_of packSpider fileType =
     (case packSpiderFiles packSpider fileType of
        None \<Rightarrow> \<lparr>connect = None, includeFiles = None, sharedFiles = None\<rparr>
      | Some f \<Rightarrow> f)"

definition orEmpty :: "'a list option \<Rightarrow> 'a list" where
  "orEmpty v = (case v of None \<Rightarrow> [] | Some xs \<Rightarrow> xs)"

definition includePaths :: "PackSpider \<Rightarrow> string \<Rightarrow> string \<Rightarrow> string list" where
  "includePaths packSpider fileType path =
     (let pathStart = hd (split (CHR ''/'') path);
          cacheData = cacheData_of packSpider path fileType;
          cacheKeysToInclude =
            (case includeFiles (packSpiderFile_of packSpider fileType) of
               None \<Rightarrow> []
             | Some keys \<Rightarrow> concat (map (\<lambda>cacheKey. orEmpty (cacheData cacheKey)) keys))
      in map (\<lambda>p. pathStart @ ''/'' @ p) cacheKeysToInclude)"

definition connectPaths :: "PackSpider \<Rightarrow> string \<Rightarrow> string \<Rightarrow> string list" where
  "connectPaths packSpider fileType path =
     (let cacheData = cacheData_of packSpider path fileType
      in concat (map (\<lambda>d.
           let find' = (case fd_find d of Inl s \<Rightarrow> [s] | Inr ss \<Rightarrow> ss);
               matchesOneOf = orEmpty (cacheData (fd_matches d))
           in lightningStore_findMultiple packSpider find' (fd_where d) matchesOneOf)
         (orEmpty (connect (packSpiderFile_of packSpider fileType)))))"

definition sharedPaths :: "PackSpider \<Rightarrow> string \<Rightarrow> string list" where
  "sharedPaths packSpider fileType = orEmpty (sharedFiles (packSpiderFile_of packSpider fileType))"

definition linkedPaths :: "PackSpider \<Rightarrow> string \<Rightarrow> string \<Rightarrow> string list" where
  "linkedPaths packSpider fileType path =
     includePaths packSpider fileType path
     @ connectPaths packSpider fileType path
     @ sharedPaths packSpider fileType"

text \<open>
  The end of \<open>File.create\<close>: the constructor call, the identifier and the registry.
  With \<open>forceUpdate\<close> the third argument is \<open>[...storedFile?.parents]\<close>; spreading
  \<open>undefined\<close> into an array throws a \<open>TypeError\<close>.
\<close>

definition construct ::
  "PackSpider \<Rightarrow> string \<Rightarrow> string \<Rightarrow> bool \<Rightarrow> addr option \<Rightarrow> addr list \<Rightarrow> world \<Rightarrow> error + addr \<times> world" where
  "construct packSpider fileType path forceUpdate storedFile connected w =
     (case (if forceUpdate
            then (case storedFile of None \<Rightarrow> Inl TypeError | Some s \<Rightarrow> Inr (parents (heap w s)))
            else Inr [])
      of Inl e \<Rightarrow> Inl e
       | Inr parentsArg \<Rightarrow>
           (let (file, w1) = new_File path connected parentsArg w;
                cacheData = cacheData_of packSpider path fileType;
                ident = (case cacheData ''identifier'' of Some (i # _) \<Rightarrow> i | _ \<Rightarrow> ''unknown'');
                w2 = w1\<lparr>heap := setIdentifier file ident (heap w1)\<rparr>;
                files = (case fileStore w2 fileType of None \<Rightarrow> Map.empty | Some fs \<Rightarrow> fs)
            in Inr (file, w2\<lparr>fileStore := (fileStore w2)(fileType \<mapsto> files(path \<mapsto> file))\<rparr>)))"

text \<open>
  \<open>File.create\<close> calls itself for every linked path, and the recursion need not end
  (a file whose cache data leads back to its own path is created again and again before
  it is ever registered), so the model is a partial function: \<open>None\<close> means that the
  call does not return.  The request \<open>Create filePath forceUpdate\<close> is one call of
  \<open>File.create\<close>; the request \<open>CreateEach paths\<close> is a loop
  \<open>for (const filePath of paths) connectedFiles.push(await File.create(filePath, packSpider))\<close>
  and returns the files pushed.
\<close>

datatype request = Create string bool | CreateEach "string list"

partial_function (option) File_create_rec ::
  "PackSpider \<Rightarrow> request \<Rightarrow> world \<Rightarrow> (error + addr list \<times> world) option" where
  "File_create_rec packSpider t w =
     (case t of
        CreateEach paths \<Rightarrow>
          (case paths of
             [] \<Rightarrow> Some (Inr ([], w))
           | path # rest \<Rightarrow>
               Option.bind (File_create_rec packSpider (Create path False) w)
                 (\<lambda>r. case r of
                    Inl e \<Rightarrow> Some (Inl e)
                  | Inr (file, w1) \<Rightarrow>
                      Option.bind (File_create_rec packSpider (CreateEach rest) w1)
                        (\<lambda>r1. case r1 of
                           Inl e \<Rightarrow> Some (Inl e)
                         | Inr (files, w2) \<Rightarrow> Some (Inr (file @ files, w2)))))
      | Create path forceUpdate \<Rightarrow>
          (let fileType = getId packSpider path;
               storedFile = storedFile_of w fileType path
           in case (case storedFile of
                      Some s \<Rightarrow> if \<not> forceUpdate then Inl s else Inr (detach s w)
                    | None \<Rightarrow> Inr w)
              of Inl s \<Rightarrow> Some (Inr ([s], w))
               | Inr w1 \<Rightarrow>
                   Option.bind
                     (File_create_rec packSpider
                        (CreateEach (linkedPaths packSpider fileType path)) w1)
                     (\<lambda>r. case r of
                        Inl e \<Rightarrow> Some (Inl e)
                      | Inr (connected, w2) \<Rightarrow>
                          (case construct packSpider fileType path forceUpdate storedFile
                                  connected w2
                           of Inl e \<Rightarrow> Some (Inl e)
                            | Inr (file, w3) \<Rightarrow> Some (Inr ([file], w3))))))"

declare File_create_rec.simps [code]

definition File_create ::
  "PackSpider \<Rightarrow> string \<Rightarrow> bool \<Rightarrow> world \<Rightarrow> (error + addr \<times> world) option" where
  "File_create packSpider path forceUpdate w =
     (case File_create_rec packSpider (Create path forceUpdate) w of
        None \<Rightarrow> None
      | Some (Inl e) \<Rightarrow> Some (Inl e)
      | Some (Inr (files, w1)) \<Rightarrow>
          (case files of [file] \<Rightarrow> Some (Inr (file, w1)) | _ \<Rightarrow> None))"



text \<open>
  The paths that a path links, and the links among the paths that can be reached from a
  path \<open>p\<close> and are not registered in a world: \<open>(q', q)\<close> when \<open>q\<close> links
  \<open>q'\<close>.  A call of \<open>File.create\<close> for a registered path returns at once, so only
  these links lead to further calls; when the relation is well-founded, the calls end.
\<close>

definition linked :: "PackSpider \<Rightarrow> (string \<times> string) set" where
  "linked packSpider = {(p, q). q \<in> set (linkedPaths packSpider (getId packSpider p) p)}"

definition registered :: "PackSpider \<Rightarrow> world \<Rightarrow> string \<Rightarrow> bool" where
  "registered packSpider w q = (storedFile_of w (getId packSpider q) q \<noteq> None)"

definition pending_links :: "PackSpider \<Rightarrow> world \<Rightarrow> string \<Rightarrow> (string \<times> string) set" where
  "pending_links packSpider w p =
     {(q', q). (p, q) \<in> (linked packSpider)\<^sup>* \<and> (q, q') \<in> linked packSpider
               \<and> \<not> registered packSpider w q \<and> \<not> registered packSpider w q'}"


text \<open>
  A world is ordered when every allocated object is connected to objects that were
  allocated before it.
\<close>

definition ordered :: "world \<Rightarrow> bool" where
  "ordered w = (\<forall>a<nextAddr w. \<forall>c\<in>set (connectedFiles (heap w a)). c < a)"


text \<open>
  A small pack: every path has the file type \<open>entity\<close>, whose rule includes the files
  named under the cache key \<open>loot\<close>; the cache data of \<open>BP/p.json\<close> names
  \<open>a.json\<close>, that of \<open>BP/a.json\<close> names \<open>loot/x.json\<close>, and that of
  \<open>BP/loop.json\<close> names \<open>loop.json\<close> itself.
\<close>

definition sample_spider :: PackSpider where
  "sample_spider =
     \<lparr>getId = (\<lambda>_. ''entity''),
      packSpiderFiles = [''entity'' \<mapsto> \<lparr>connect = None, includeFiles = Some [''loot''], sharedFiles = None\<rparr>],
      lightningStore_data = (\<lambda>path fileType.
         if path = ''BP/p.json'' then Some [''loot'' \<mapsto> [''a.json'']]
         else if path = ''BP/a.json'' then Some [''loot'' \<mapsto> [''loot/x.json''], ''identifier'' \<mapsto> [''mob:a'']]
         else if path = ''BP/loop.json'' then Some [''loot'' \<mapsto> [''loop.json'']]
         else None),
      lightningStore_findMultiple = (\<lambda>_ _ _. [])\<rparr>"

definition empty_world :: world where
  "empty_world = \<lparr>heap = (\<lambda>_. emptyFile), nextAddr = 0, fileStore = Map.empty\<rparr>"

text \<open>The world after \<open>File.create('BP/p.json', packSpider)\<close> in the empty world.\<close>

definition sample_world :: world where
  "sample_world =
     (case File_create sample_spider ''BP/p.json'' False empty_world of
        Some (Inr (_, w)) \<Rightarrow> w
      | _ \<Rightarrow> empty_world)"

text \<open>
  A pack whose cache data changes: \<open>BP/b.json\<close> names \<open>a.json\<close> under the key
  \<open>loot\<close>; once \<open>BP/a.json\<close> has been updated, its cache data names \<open>b.json\<close>.
\<close>

definition relink_spider :: "bool \<Rightarrow> PackSpider" where
  "relink_spider updated =
     \<lparr>getId = (\<lambda>_. ''entity''),
      packSpiderFiles = [''entity'' \<mapsto> \<lparr>connect = None, includeFiles = Some [''loot''], sharedFiles = None\<rparr>],
      lightningStore_data = (\<lambda>path fileType.
         if path = ''BP/b.json'' then Some [''loot'' \<mapsto> [''a.json'']]
         else if path = ''BP/a.json'' \<and> updated then Some [''loot'' \<mapsto> [''b.json'']]
         else None),
      lightningStore_findMultiple = (\<lambda>_ _ _. [])\<rparr>"

text \<open>
  \<open>File.create('BP/b.json', packSpider)\<close> in the empty world, and then, with the
  updated cache data, \<open>File.create('BP/a.json', packSpider, true)\<close>.
\<close>

definition relinked :: "(error + addr \<times> world) option" where
  "relinked =
     (case File_create (relink_spider False) ''BP/b.json'' False empty_world of
        Some (Inr (_, w)) \<Rightarrow> File_create (relink_spider True) ''BP/a.json'' True w
      | r \<Rightarrow> r)"

section \<open>The indexing cache (LightningCache)\<close>

subsection \<open>Parsed documents and instructions\<close>

text \<open>
  A JavaScript value as \<open>json5.parse\<close> or a map function returns it.  An array and
  an object are compared by identity (by \<open>includes\<close> and by a \<open>Set\<close>), so each
  carries the reference of the object it is: two arrays or objects are the same object
  exactly when their references are equal, and then their contents are equal as well.
  With that, equality of values is the \<open>SameValueZero\<close> of JavaScript.  The
  properties of an object are listed in the order in which \<open>Object.keys\<close> enumerates
  them.  Numbers are only ever compared.
\<close>

type_synonym ref = nat

datatype json =
    JNull
  | JBool bool
  | JNum int
  | JStr string
  | JArr ref "json list"
  | JObj ref "(string \<times> json) list"

text \<open>\<open>Array.isArray\<close>, \<open>typeof\<close> and \<open>Object.keys(data ?? {})\<close>.\<close>

definition Array_isArray :: "json \<Rightarrow> bool" where
  "Array_isArray d = (case d of JArr r xs \<Rightarrow> True | _ \<Rightarrow> False)"

definition typeof :: "json \<Rightarrow> string" where
  "typeof d =
     (case d of
        JNull \<Rightarrow> ''object''
      | JBool b \<Rightarrow> ''boolean''
      | JNum n \<Rightarrow> ''number''
      | JStr s \<Rightarrow> ''string''
      | JArr r xs \<Rightarrow> ''object''
      | JObj r kvs \<Rightarrow> ''object'')"

definition Object_keys_or_empty :: "json \<Rightarrow> string list" where
  "Object_keys_or_empty d = (case d of JObj r kvs \<Rightarrow> map fst kvs | _ \<Rightarrow> [])"

text \<open>The elements of an array, as the assignment \<open>readyData = data\<close> takes them.\<close>

definition elements :: "json \<Rightarrow> json list" where
  "elements d = (case d of JArr r xs \<Rightarrow> xs | _ \<Rightarrow> [])"

text \<open>
  \<open>collectedData\<close> is a plain object, so \<open>collectedData[key]\<close> finds a property of
  its own or, failing that, one that every object inherits from \<open>Object.prototype\<close>.
  The inherited values are functions (an object for \<open>__proto__\<close>): they are truthy
  and have no method \<open>concat\<close>.
\<close>

definition Object_prototype_keys :: "string list" where
  "Object_prototype_keys =
     [''constructor'', ''__defineGetter__'', ''__defineSetter__'', ''hasOwnProperty'',
      ''__lookupGetter__'', ''__lookupSetter__'', ''isPrototypeOf'', ''propertyIsEnumerable'',
      ''toString'', ''valueOf'', ''__proto__'', ''toLocaleString'']"

datatype 'a property_value = Own 'a | Inherited | Undefined

definition get_property :: "(string \<times> 'a) list \<Rightarrow> string \<Rightarrow> 'a property_value" where
  "get_property obj key =
     (case map_of obj key of
        Some v \<Rightarrow> Own v
      | None \<Rightarrow> if key \<in> set Object_prototype_keys then Inherited else Undefined)"

text \<open>
  \<open>ILightningInstruction\<close>: the optional \<open>@filter\<close> and \<open>@map\<close>, and the other
  properties in the order of \<open>Object.keys\<close>, each a path or an array of paths.
  \<open>FileType.getLightningCache\<close> returns an array of instructions or the source of a
  script.
\<close>

datatype ipaths = OnePath string | ManyPaths "string list"

record ILightningInstruction =
  at_filter :: "string list option"
  at_map :: "string option"
  properties :: "(string \<times> ipaths) list"

datatype instructions = Script string | Instructions "ILightningInstruction list"

subsection \<open>The lightning store\<close>

text \<open>
  Assigning to a property of a JavaScript object: a key that is present keeps its place,
  a new key comes last.
\<close>

fun upsert :: "'k \<Rightarrow> 'v \<Rightarrow> ('k \<times> 'v) list \<Rightarrow> ('k \<times> 'v) list" where
  "upsert k v [] = [(k, v)]"
| "upsert k v ((k', v') # kvs) = (if k' = k then (k, v) # kvs else (k', v') # upsert k v kvs)"

record StoreEntry =
  lastModified :: int
  data :: "(string \<times> json list) list option"

record LightningStore =
  store :: "((string \<times> string) \<times> StoreEntry) list"
  visited :: "(string \<times> string) list"
  totalFiles :: nat

text \<open>
  Modelled from the spec: the class \<open>LightningStore\<close> is not part of the sources at
  hand.  The spec describes it as a mapping from (file type, path) to a record
  \<open>{lastModified, data?}\<close> that is updated as a whole, with the operations
  \<open>get(path, type) -> record|empty\<close>, \<open>add(path, type, record)\<close> (an upsert),
  \<open>getLastModified\<close>, \<open>setVisited\<close>, the counters \<open>visitedFiles\<close> and
  \<open>totalFiles\<close> (the files visited in this pass, and the previously known number of
  files) and \<open>allFiles() -> list<path>\<close>.
\<close>

definition store_get :: "LightningStore \<Rightarrow> string \<Rightarrow> string \<Rightarrow> StoreEntry option" where
  "store_get ls path fileType = map_of (store ls) (fileType, path)"

definition getLastModified :: "LightningStore \<Rightarrow> string \<Rightarrow> string \<Rightarrow> int option" where
  "getLastModified ls path fileType = map_option lastModified (store_get ls path fileType)"

definition store_add :: "LightningStore \<Rightarrow> string \<Rightarrow> StoreEntry \<Rightarrow> string \<Rightarrow> LightningStore" where
  "store_add ls path entry fileType =
     ls\<lparr>store := upsert (fileType, path) entry (store ls),
        visited := set_add (fileType, path) (visited ls)\<rparr>"

definition setVisited :: "LightningStore \<Rightarrow> string \<Rightarrow> bool \<Rightarrow> string \<Rightarrow> LightningStore" where
  "setVisited ls path v fileType =
     ls\<lparr>visited := (if v then set_add (fileType, path) (visited ls)
                     else set_delete (fileType, path) (visited ls))\<rparr>"

definition visitedFiles :: "LightningStore \<Rightarrow> nat" where
  "visitedFiles ls = length (visited ls)"

definition allFiles :: "LightningStore \<Rightarrow> string list" where
  "allFiles ls = map (\<lambda>((fileType, path), entry). path) (store ls)"

definition store_setup :: "LightningStore \<Rightarrow> LightningStore" where
  "store_setup ls = ls\<lparr>visited := [], totalFiles := length (store ls)\<rparr>"

subsection \<open>The file system and the other collaborators\<close>

text \<open>
  A file as \<open>fileHandle.getFile()\<close> returns it, and a directory as its \<open>entries()\<close>
  enumerate it.
\<close>

record DiskFile =
  file_lastModified :: int
  file_text :: string

datatype entry = FileEntry string DiskFile | DirectoryEntry string "entry list"

text \<open>
  What the cache calls and what is not part of the sources at hand, as parameters:
  \<open>FileType.getId\<close> and \<open>FileType.getLightningCache\<close>; \<open>json5.parse\<close>
  (\<open>None\<close> when it throws); \<open>runScript\<close>, which evaluates the source of a script
  (\<open>None\<close> when the value is not a function; the function returns \<open>None\<close> for
  \<open>undefined\<close> or \<open>null\<close>); \<open>run(mapFunc, {value})\<close> (\<open>None\<close> for
  \<open>undefined\<close>); \<open>extname\<close>; the option \<open>noFullLightningCacheRefresh\<close>; the text
  of \<open>bridge/.ignore-folders\<close> (\<open>None\<close> when reading it fails); and the base
  directory.
\<close>

record Services =
  FileType_getId :: "string \<Rightarrow> string"
  FileType_getLightningCache :: "string \<Rightarrow> instructions"
  json5_parse :: "string \<Rightarrow> json option"
  runScript :: "string \<Rightarrow> (string \<Rightarrow> (string \<times> json list) list option) option"
  run :: "string \<Rightarrow> json \<Rightarrow> json option"
  extname :: "string \<Rightarrow> string"
  noFullLightningCacheRefresh :: bool
  ignoreFoldersFile :: "string option"
  baseDirectory :: "entry list"

text \<open>
  Modelled from the spec: the function \<open>walkObject\<close> is not part of the sources at
  hand.  The spec says that it resolves a declared target path against the parsed tree,
  and gives one path, \<open>entries[].id\<close>, which reaches the \<open>id\<close> of every element of
  the array \<open>entries\<close>.  So a path is a list of property names separated by dots, a
  name followed by \<open>[]\<close> stands for every element of the array under that name, and
  the values reached are handed to the callback one after the other;
  \<open>walkObject path data\<close> is the list of these values.
\<close>

definition property :: "string \<Rightarrow> json \<Rightarrow> json option" where
  "property k v = (case v of JObj r kvs \<Rightarrow> map_of kvs k | _ \<Rightarrow> None)"

definition each_suffix :: "string \<Rightarrow> string option" where
  "each_suffix seg =
     (if 2 \<le> length seg \<and> drop (length seg - 2) seg = ''[]''
      then Some (take (length seg - 2) seg) else None)"

fun walk_segments :: "string list \<Rightarrow> json \<Rightarrow> json list" where
  "walk_segments [] v = [v]"
| "walk_segments (seg # segs) v =
     (case each_suffix seg of
        Some k \<Rightarrow>
          (case property k v of
             Some (JArr r xs) \<Rightarrow> concat (map (walk_segments segs) xs)
           | _ \<Rightarrow> [])
      | None \<Rightarrow>
          (case property seg v of
             Some v' \<Rightarrow> walk_segments segs v'
           | None \<Rightarrow> []))"

definition walkObject :: "string \<Rightarrow> json \<Rightarrow> json list" where
  "walkObject path d = walk_segments (split (CHR ''.'') path) d"

subsection \<open>The state of a pass\<close>

text \<open>
  The calls of a pass that reprocess a file or write to the store, in the order in which
  they are made.
\<close>

datatype event =
    ReadText string
  | ParseJSON string
  | GetLightningCache string
  | RunScript string
  | StoreAdd string string StoreEntry
  | StoreSetVisited string string
  | StoreSave

text \<open>
  The fields of the \<open>LightningCache\<close> object and its store, the progress counters of
  the service, the local variables of \<open>start\<close> that its callback writes, and the
  calls made so far.
\<close>

record scan =
  lightningStore :: LightningStore
  folderIgnoreList :: "string list"
  progress_total :: nat
  progress_current :: nat
  anyFileChanged :: bool
  filePaths :: "string list"
  changedFiles :: "string list"
  trace :: "event list"

definition logged :: "event \<Rightarrow> scan \<Rightarrow> scan" where
  "logged e s = s\<lparr>trace := trace s @ [e]\<rparr>"

text \<open>\<open>this.lightningStore.add(filePath, entry, fileType)\<close>\<close>

definition add_entry :: "string \<Rightarrow> StoreEntry \<Rightarrow> string \<Rightarrow> scan \<Rightarrow> scan" where
  "add_entry path entry fileType s =
     logged (StoreAdd fileType path entry)
       (s\<lparr>lightningStore := store_add (lightningStore s) path entry fileType\<rparr>)"

definition knownTextFiles :: "string list" where
  "knownTextFiles = [''.js'', ''.ts'', ''.lang'', ''.mcfunction'', ''.txt'', ''.molang'']"

subsection \<open>processJSON\<close>

text \<open>
  The callback \<open>onReceiveData(key, filter, mapFunc)\<close>, applied to a value that
  \<open>walkObject\<close> reached, as a function on \<open>collectedData\<close>.  An array
  \<open>filter\<close> is truthy even when it is empty; a string \<open>mapFunc\<close> is truthy unless
  it is empty.  When \<open>collectedData[key]\<close> is an inherited value, the branch
  \<open>collectedData[key].concat(readyData)\<close> is taken and throws a \<open>TypeError\<close>.
\<close>

definition onReceiveData ::
  "Services \<Rightarrow> string \<Rightarrow> string list option \<Rightarrow> string option \<Rightarrow> json
     \<Rightarrow> (string \<times> json list) list \<Rightarrow> error + (string \<times> json list) list" where
  "onReceiveData sv key filter' mapFunc d collectedData =
     (let readyData =
            (if Array_isArray d then elements d
             else if typeof d = ''object'' then map JStr (Object_keys_or_empty d)
             else [d]);
          readyData = (case filter' of
                         Some fs \<Rightarrow> List.filter (\<lambda>d. \<not> (\<exists>x\<in>set fs. JStr x = d)) readyData
                       | None \<Rightarrow> readyData);
          readyData = (case mapFunc of
                         Some m \<Rightarrow> if m \<noteq> [] then List.map_filter (\<lambda>v. run sv m v) readyData
                                   else readyData
                       | None \<Rightarrow> readyData)
      in case get_property collectedData key of
           Undefined \<Rightarrow> Inr (upsert key readyData collectedData)
         | Own old \<Rightarrow> Inr (upsert key (new_Set (old @ readyData)) collectedData)
         | Inherited \<Rightarrow> Inl TypeError)"

definition startsWith_at :: "string \<Rightarrow> bool" where
  "startsWith_at key = (case key of [] \<Rightarrow> False | c # _ \<Rightarrow> c = CHR ''@'')"

text \<open>A loop whose body can throw: the first exception ends it.\<close>

fun for_each :: "('a \<Rightarrow> 's \<Rightarrow> error + 's) \<Rightarrow> 'a list \<Rightarrow> 's \<Rightarrow> error + 's" where
  "for_each body [] s = Inr s"
| "for_each body (x # xs) s =
     (case body x s of Inl e \<Rightarrow> Inl e | Inr s' \<Rightarrow> for_each body xs s')"

text \<open>One round of the loop \<open>for (const instruction of instructions)\<close>.\<close>

definition evalInstruction ::
  "Services \<Rightarrow> json \<Rightarrow> ILightningInstruction \<Rightarrow> (string \<times> json list) list
     \<Rightarrow> error + (string \<times> json list) list" where
  "evalInstruction sv d instruction collectedData =
     (case List.find (\<lambda>key. \<not> startsWith_at key) (map fst (properties instruction)) of
        None \<Rightarrow> Inr collectedData
      | Some key \<Rightarrow>
          if key = [] then Inr collectedData
          else (case map_of (properties instruction) key of
                  None \<Rightarrow> Inr collectedData
                | Some (ManyPaths paths) \<Rightarrow>
                    for_each (\<lambda>path c.
                        for_each (onReceiveData sv key (at_filter instruction) (at_map instruction))
                          (walkObject path d) c)
                      paths collectedData
                | Some (OnePath path) \<Rightarrow>
                    for_each (onReceiveData sv key (at_filter instruction) (at_map instruction))
                      (walkObject path d) collectedData))"

text \<open>
  Only \<open>json5.parse\<close> stands in a \<open>try\<close>: an exception of the callback leaves
  \<open>processJSON\<close> before any record is added.
\<close>

definition processJSON :: "Services \<Rightarrow> string \<Rightarrow> string \<Rightarrow> DiskFile \<Rightarrow> scan \<Rightarrow> error + scan" where
  "processJSON sv path fileType file s =
     (let s = logged (ReadText path) s;
          fileContent = file_text file;
          s = logged (ParseJSON path) s
      in case json5_parse sv fileContent of
           None \<Rightarrow> Inr (add_entry path \<lparr>lastModified = file_lastModified file, data = None\<rparr> fileType s)
         | Some d \<Rightarrow>
             (let s = logged (GetLightningCache path) s
              in case FileType_getLightningCache sv path of
                   Script src \<Rightarrow>
                     Inr (add_entry path \<lparr>lastModified = file_lastModified file, data = None\<rparr> fileType s)
                 | Instructions instructions \<Rightarrow>
                     if length instructions = 0
                     then Inr (add_entry path \<lparr>lastModified = file_lastModified file, data = None\<rparr> fileType s)
                     else (case for_each (evalInstruction sv d) instructions [] of
                             Inl e \<Rightarrow> Inl e
                           | Inr collectedData \<Rightarrow>
                               Inr (add_entry path
                                      \<lparr>lastModified = file_lastModified file,
                                       data = (if length collectedData > 0 then Some collectedData else None)\<rparr>
                                      fileType s))))"

subsection \<open>processText\<close>

text \<open>
  How a block of statements ends: with a \<open>return\<close>, by reaching its end, or with an
  exception.
\<close>

datatype 's completion = Return 's | Next 's | Throw error

text \<open>
  In \<open>processText\<close> the block of the \<open>if (typeof instructions === 'string')\<close> has no
  \<open>return\<close> after its \<open>add\<close>, so the \<open>add\<close> that follows the block runs as well.
  \<open>Object.keys(textData)\<close> throws a \<open>TypeError\<close> when the script's function returned
  \<open>undefined\<close> or \<open>null\<close>.
\<close>

definition processText :: "Services \<Rightarrow> string \<Rightarrow> string \<Rightarrow> DiskFile \<Rightarrow> scan \<Rightarrow> error + scan" where
  "processText sv path fileType file s =
     (let s = logged (GetLightningCache path) s;
          block =
            (case FileType_getLightningCache sv path of
               Script src \<Rightarrow>
                 (let s = logged (RunScript path) s
                  in case runScript sv src of
                       None \<Rightarrow> Return s
                     | Some cacheFunction \<Rightarrow>
                         (let s = logged (ReadText path) s;
                              fileContent = file_text file
                          in case cacheFunction fileContent of
                               None \<Rightarrow> Throw TypeError
                             | Some textData \<Rightarrow>
                                 Next (add_entry path
                                         \<lparr>lastModified = file_lastModified file,
                                          data = (if length textData > 0 then Some textData else None)\<rparr>
                                         fileType s)))
             | Instructions instructions \<Rightarrow> Next s)
      in case block of
           Return s \<Rightarrow> Inr s
         | Throw e \<Rightarrow> Inl e
         | Next s \<Rightarrow>
             Inr (add_entry path \<lparr>lastModified = file_lastModified file, data = None\<rparr> fileType s))"

subsection \<open>processFile, iterateDir and start\<close>

definition processFile :: "Services \<Rightarrow> string \<Rightarrow> DiskFile \<Rightarrow> scan \<Rightarrow> error + bool \<times> scan" where
  "processFile sv path file s =
     (let fileType = FileType_getId sv path
      in if Some (file_lastModified file) = getLastModified (lightningStore s) path fileType
         then Inr (False, logged (StoreSetVisited fileType path)
                            (s\<lparr>lightningStore := setVisited (lightningStore s) path True fileType\<rparr>))
         else (let ext = extname sv path
               in if ext = ''.json''
                  then (case processJSON sv path fileType file s of
                          Inl e \<Rightarrow> Inl e
                        | Inr s' \<Rightarrow> Inr (True, s'))
                  else if ext \<in> set knownTextFiles
                  then (case processText sv path fileType file s of
                          Inl e \<Rightarrow> Inl e
                        | Inr s' \<Rightarrow> Inr (True, s'))
                  else Inr (True, add_entry path \<lparr>lastModified = file_lastModified file, data = None\<rparr>
                                    fileType s)))"

definition hidden :: "string \<Rightarrow> bool" where
  "hidden entryName = (case entryName of [] \<Rightarrow> False | c # _ \<Rightarrow> c = CHR ''.'')"

definition join_path :: "string \<Rightarrow> string \<Rightarrow> string" where
  "join_path fullPath entryName = (if length fullPath = 0 then entryName else fullPath @ ''/'' @ entryName)"

fun iterateDir ::
  "(DiskFile \<Rightarrow> string \<Rightarrow> scan \<Rightarrow> error + scan) \<Rightarrow> entry list \<Rightarrow> string \<Rightarrow> scan \<Rightarrow> error + scan" where
  "iterateDir callback [] fullPath s = Inr s"
| "iterateDir callback (FileEntry entryName file # rest) fullPath s =
     (if hidden entryName then iterateDir callback rest fullPath s
      else (case callback file (join_path fullPath entryName) (s\<lparr>progress_total := progress_total s + 2\<rparr>) of
              Inl e \<Rightarrow> Inl e
            | Inr s' \<Rightarrow> iterateDir callback rest fullPath s'))"
| "iterateDir callback (DirectoryEntry entryName dir # rest) fullPath s =
     (if join_path fullPath entryName \<in> set (folderIgnoreList s) then iterateDir callback rest fullPath s
      else (case iterateDir callback dir (join_path fullPath entryName) s of
              Inl e \<Rightarrow> Inl e
            | Inr s' \<Rightarrow> iterateDir callback rest fullPath s'))"

text \<open>The callback that \<open>start\<close> passes to \<open>iterateDir\<close>.\<close>

definition start_callback :: "Services \<Rightarrow> DiskFile \<Rightarrow> string \<Rightarrow> scan \<Rightarrow> error + scan" where
  "start_callback sv fileHandle path s =
     (case processFile sv path fileHandle s of
        Inl e \<Rightarrow> Inl e
      | Inr (fileDidChange, s) \<Rightarrow>
          (let s = (if fileDidChange
                    then s\<lparr>anyFileChanged := True, changedFiles := changedFiles s @ [path]\<rparr>
                    else s);
               s = s\<lparr>filePaths := filePaths s @ [path]\<rparr>
           in Inr (s\<lparr>progress_current := progress_current s + 1\<rparr>)))"

definition loadIgnoreFolders :: "Services \<Rightarrow> scan \<Rightarrow> scan" where
  "loadIgnoreFolders sv s =
     (case ignoreFoldersFile sv of
        Some t \<Rightarrow>
          s\<lparr>folderIgnoreList := fold set_add (split (CHR 0x0A) t @ [''bridge'', ''builds''])
                                    (folderIgnoreList s)\<rparr>
      | None \<Rightarrow>
          s\<lparr>folderIgnoreList := fold set_add [''bridge'', ''builds''] (folderIgnoreList s)\<rparr>)"

text \<open>
  \<open>start\<close> returns the pair \<open>[filePaths, changedFiles]\<close>.  \<open>full_walk\<close> is its second
  half, from \<open>let anyFileChanged = false\<close> on.
\<close>

definition full_walk :: "Services \<Rightarrow> scan \<Rightarrow> error + (string list \<times> string list) \<times> scan" where
  "full_walk sv s =
     (let s = s\<lparr>anyFileChanged := False, filePaths := [], changedFiles := []\<rparr>
      in case iterateDir (start_callback sv) (baseDirectory sv) [] s of
           Inl e \<Rightarrow> Inl e
         | Inr s \<Rightarrow>
             (let s = (if anyFileChanged s
                          \<or> visitedFiles (lightningStore s) \<noteq> totalFiles (lightningStore s)
                       then logged StoreSave s else s)
              in Inr ((filePaths s, changedFiles s), s)))"

definition start :: "Services \<Rightarrow> scan \<Rightarrow> error + (string list \<times> string list) \<times> scan" where
  "start sv s =
     (let s = s\<lparr>lightningStore := store_setup (lightningStore s)\<rparr>;
          s = (if length (folderIgnoreList s) = 0 then loadIgnoreFolders sv s else s)
      in if noFullLightningCacheRefresh sv \<and> length (allFiles (lightningStore s)) > 0
         then Inr ((allFiles (lightningStore s), []), s)
         else full_walk sv s)"

subsection \<open>What a walk visits\<close>

text \<open>
  The files that \<open>iterateDir\<close> hands to its callback, with their paths and in its
  order, when the folders of \<open>ignore\<close> are skipped.
\<close>

fun walk_files :: "string list \<Rightarrow> entry list \<Rightarrow> string \<Rightarrow> (string \<times> DiskFile) list" where
  "walk_files ignore [] fullPath = []"
| "walk_files ignore (FileEntry entryName file # rest) fullPath =
     (if hidden entryName then walk_files ignore rest fullPath
      else (join_path fullPath entryName, file) # walk_files ignore rest fullPath)"
| "walk_files ignore (DirectoryEntry entryName dir # rest) fullPath =
     (if join_path fullPath entryName \<in> set ignore then walk_files ignore rest fullPath
      else walk_files ignore dir (join_path fullPath entryName) @ walk_files ignore rest fullPath)"

text \<open>
  The state in which \<open>start\<close> decides between its fast path and the walk: the store
  is set up and the ignored folders are loaded.
\<close>

definition prepared :: "Services \<Rightarrow> scan \<Rightarrow> scan" where
  "prepared sv s =
     (let s = s\<lparr>lightningStore := store_setup (lightningStore s)\<rparr>
      in if length (folderIgnoreList s) = 0 then loadIgnoreFolders sv s else s)"

text \<open>
  A file is unchanged when the store holds a record for it whose \<open>lastModified\<close> is
  the file's timestamp.
\<close>

definition unchanged :: "Services \<Rightarrow> LightningStore \<Rightarrow> string \<times> DiskFile \<Rightarrow> bool" where
  "unchanged sv ls pf =
     (getLastModified ls (fst pf) (FileType_getId sv (fst pf)) = Some (file_lastModified (snd pf)))"

text \<open>Whether \<open>saveStore\<close> has been called since the trace was \<open>before\<close>.\<close>

definition saved_since :: "event list \<Rightarrow> scan \<Rightarrow> bool" where
  "saved_since before s = (StoreSave \<in> set (drop (length before) (trace s)))"

text \<open>
  What every step of a walk keeps: the ignored folders and the known total, a trace that
  only grows and gains no \<open>saveStore\<close>, and the agreement of the flag
  \<open>anyFileChanged\<close> with the list of changed files.
\<close>

definition walk_inv :: "scan \<Rightarrow> scan \<Rightarrow> bool" where
  "walk_inv s s' =
     (folderIgnoreList s' = folderIgnoreList s
      \<and> totalFiles (lightningStore s') = totalFiles (lightningStore s)
      \<and> (\<exists>evs. trace s' = trace s @ evs \<and> StoreSave \<notin> set evs)
      \<and> ((anyFileChanged s \<longleftrightarrow> changedFiles s \<noteq> []) \<longrightarrow> (anyFileChanged s' \<longleftrightarrow> changedFiles s' \<noteq> [])))"

text \<open>The keys under which the store knows the files of a walk.\<close>

definition walk_keys :: "Services \<Rightarrow> (string \<times> DiskFile) list \<Rightarrow> (string \<times> string) list" where
  "walk_keys sv files = map (\<lambda>pf. (FileType_getId sv (fst pf), fst pf)) files"

subsection \<open>A small project\<close>

text \<open>
  A stand-in for \<open>extname\<close>: the last dot of the last segment of a path and what
  follows it.
\<close>

definition sample_extname :: "string \<Rightarrow> string" where
  "sample_extname path =
     (let parts = split (CHR ''.'') (last (split (CHR ''/'') path))
      in if length parts \<le> 1 then [] else CHR ''.'' # last parts)"

text \<open>The document \<open>{entries: [{id: "a"}, {id: "b"}]}\<close> and the instruction \<open>{path: "entries[].id"}\<close>.\<close>

definition sample_doc :: json where
  "sample_doc =
     JObj 0 [(''entries'', JArr 1 [JObj 2 [(''id'', JStr ''a'')], JObj 3 [(''id'', JStr ''b'')]])]"

definition sample_text :: string where
  \<open>sample_text = ''{entries: [{id: "a"}, {id: "b"}]}''\<close>

definition sample_instruction :: ILightningInstruction where
  "sample_instruction = \<lparr>at_filter = None, at_map = None, properties = [(''path'', OnePath ''entries[].id'')]\<rparr>"

text \<open>
  Every path has the file type \<open>x\<close>.  A JSON file has the instruction above, and of
  the texts used here only \<open>sample_text\<close> parses; a \<open>.lang\<close> file has a script
  whose value is not a function; any other file has a script whose function returns the
  text under the key \<open>lines\<close>.
\<close>

definition sample_services :: "entry list \<Rightarrow> Services" where
  "sample_services dir =
     \<lparr>FileType_getId = (\<lambda>_. ''x''),
      FileType_getLightningCache = (\<lambda>path.
         if sample_extname path = ''.json'' then Instructions [sample_instruction]
         else if sample_extname path = ''.lang'' then Script ''1 + 1''
         else Script ''(text) => ({lines: [text]})''),
      json5_parse = (\<lambda>t. if t = sample_text then Some sample_doc else None),
      runScript = (\<lambda>src. if src = ''1 + 1'' then None else Some (\<lambda>t. Some [(''lines'', [JStr t])])),
      run = (\<lambda>m v. Some v),
      extname = sample_extname,
      noFullLightningCacheRefresh = False,
      ignoreFoldersFile = None,
      baseDirectory = dir\<rparr>"

definition empty_scan :: scan where
  "empty_scan =
     \<lparr>lightningStore = \<lparr>store = [], visited = [], totalFiles = 0\<rparr>,
      folderIgnoreList = [], progress_total = 0, progress_current = 0,
      anyFileChanged = False, filePaths = [], changedFiles = [], trace = []\<rparr>"

text \<open>
  The store holds \<open>{type: "x", path: "root/a.json", lastModified: 100}\<close>, and the
  project is the folder \<open>root\<close> with the file \<open>a.json\<close>, last modified at 100.
\<close>

definition known_scan :: scan where
  "known_scan =
     empty_scan\<lparr>lightningStore :=
       \<lparr>store = [((''x'', ''root/a.json''), \<lparr>lastModified = 100, data = None\<rparr>)],
        visited = [], totalFiles = 1\<rparr>\<rparr>"

definition known_project :: "entry list" where
  "known_project =
     [DirectoryEntry ''root''
        [FileEntry ''a.json'' \<lparr>file_lastModified = 100, file_text = sample_text\<rparr>]]"

text \<open>A project with a file that does not parse, followed by one that does.\<close>

definition broken_project :: "entry list" where
  "broken_project =
     [FileEntry ''bad.json'' \<lparr>file_lastModified = 7, file_text = ''{''\<rparr>,
      FileEntry ''a.json'' \<lparr>file_lastModified = 8, file_text = sample_text\<rparr>]"

text \<open>
  A project with the one file \<open>en_US.lang\<close>, scanned twice: the second scan starts
  from the state that the first has left, and nothing in the project has changed.
\<close>

definition lang_project :: "entry list" where
  "lang_project = [FileEntry ''en_US.lang'' \<lparr>file_lastModified = 3, file_text = ''a=b''\<rparr>]"

definition first_scan :: "error + (string list \<times> string list) \<times> scan" where
  "first_scan = start (sample_services lang_project) empty_scan"

definition second_scan :: "error + (string list \<times> string list) \<times> scan" where
  "second_scan =
     (case first_scan of
        Inl e \<Rightarrow> Inl e
      | Inr (result, s) \<Rightarrow> start (sample_services lang_project) s)"

section \<open>Properties of the traversal\<close>

lemma split_not_Nil: "split sep s \<noteq> []"
  by (induction s) (auto split: list.splits)

lemma set_set_add: "set (set_add x xs) = insert x (set xs)"
  by (auto simp: set_add_def)

lemma distinct_set_add: "distinct xs \<Longrightarrow> distinct (set_add x xs)"
  by (simp add: set_add_def)

lemma set_fold_set_add: "set (fold set_add ys xs) = set xs \<union> set ys"
  by (induction ys arbitrary: xs) (auto simp: set_set_add)

lemma distinct_fold_set_add: "distinct xs \<Longrightarrow> distinct (fold set_add ys xs)"
  by (induction ys arbitrary: xs) (auto simp: distinct_set_add)

lemma cycle_heap_no_result:
  assumes "deepFiles_forEach h fs acc = Some y"
  shows "h = cycle_heap \<longrightarrow> set fs \<subseteq> {0, 1} \<longrightarrow> fs = []"
proof (rule deepFiles_forEach.raw_induct[where P = "\<lambda>h fs acc y. h = cycle_heap \<longrightarrow> set fs \<subseteq> {0, 1} \<longrightarrow> fs = []", OF _ assms])
  fix rec :: "heap \<Rightarrow> addr list \<Rightarrow> addr list \<Rightarrow> addr list option" and h fs deepFiles y
  assume IH: "\<And>h fs acc y. rec h fs acc = Some y \<Longrightarrow> h = cycle_heap \<longrightarrow> set fs \<subseteq> {0, 1} \<longrightarrow> fs = []"
    and step: "(case fs of [] \<Rightarrow> Some deepFiles
      | file # rest \<Rightarrow>
          Option.bind (rec h (connectedFiles (h file)) [])
           (\<lambda>sub. rec h rest (fold set_add sub (set_add file deepFiles)))) = Some y"
  show "h = cycle_heap \<longrightarrow> set fs \<subseteq> {0, 1} \<longrightarrow> fs = []"
  proof (intro impI)
    assume h: "h = cycle_heap" and sub: "set fs \<subseteq> {0, 1}"
    show "fs = []"
    proof (cases fs)
      case Nil then show ?thesis .
    next
      case (Cons f rest)
      with step obtain sub' where r: "rec h (connectedFiles (h f)) [] = Some sub'"
        by (auto simp: Option.bind_eq_Some_conv)
      from sub Cons have "f = 0 \<or> f = 1" by auto
      then have "connectedFiles (h f) \<noteq> []" "set (connectedFiles (h f)) \<subseteq> {0, 1}"
        by (auto simp: h cycle_heap_def)
      with IH[OF r] h show ?thesis by simp
    qed
  qed
qed

lemma forEach_ok:
  assumes "\<forall>f\<in>set fs. \<exists>sub. deepFiles_forEach h (connectedFiles (h f)) [] = Some sub \<and> distinct sub
              \<and> set sub = (links h)\<^sup>+ `` {f}"
    and "distinct acc"
  shows "\<exists>r. deepFiles_forEach h fs acc = Some r \<and> distinct r
            \<and> set r = set acc \<union> set fs \<union> (\<Union>f\<in>set fs. (links h)\<^sup>+ `` {f})"
  using assms
proof (induction fs arbitrary: acc)
  case Nil
  then show ?case by (simp add: deepFiles_forEach.simps)
next
  case (Cons f fs)
  from Cons.prems(1) obtain sub where sub: "deepFiles_forEach h (connectedFiles (h f)) [] = Some sub"
    "distinct sub" "set sub = (links h)\<^sup>+ `` {f}" by auto
  let ?acc = "fold set_add sub (set_add f acc)"
  have d: "distinct ?acc" using Cons.prems(2) by (simp add: distinct_fold_set_add distinct_set_add)
  from Cons.IH[OF _ d] Cons.prems(1) obtain r where r: "deepFiles_forEach h fs ?acc = Some r" "distinct r"
    "set r = set ?acc \<union> set fs \<union> (\<Union>f\<in>set fs. (links h)\<^sup>+ `` {f})" by auto
  have "deepFiles_forEach h (f # fs) acc = Some r"
    by (subst deepFiles_forEach.simps) (simp add: sub r)
  moreover have "set r = set acc \<union> set (f # fs) \<union> (\<Union>f\<in>set (f # fs). (links h)\<^sup>+ `` {f})"
    using r(3) sub(3) by (auto simp: set_fold_set_add set_set_add)
  ultimately show ?case using r(2) by blast
qed

lemma trancl_children:
  "(links h)\<^sup>+ `` {a} = set (connectedFiles (h a)) \<union> (\<Union>c\<in>set (connectedFiles (h a)). (links h)\<^sup>+ `` {c})"
proof -
  have l: "\<And>c. (a, c) \<in> links h \<longleftrightarrow> c \<in> set (connectedFiles (h a))" by (simp add: links_def)
  have key: "\<And>x. (a, x) \<in> (links h)\<^sup>+ \<longleftrightarrow> (a, x) \<in> links h \<or> (\<exists>c. (a, c) \<in> links h \<and> (c, x) \<in> (links h)\<^sup>+)"
    by (blast elim: converse_tranclE intro: trancl_into_trancl2)
  show ?thesis
    by (auto simp: key[of x for x] l)
qed

lemma deep_ok:
  assumes "wf (links_below h a)"
  shows "b \<in> reachable h a \<Longrightarrow> \<exists>sub. deepFiles_forEach h (connectedFiles (h b)) [] = Some sub \<and> distinct sub
              \<and> set sub = (links h)\<^sup>+ `` {b}"
  using assms
proof (induction b rule: wf_induct_rule)
  case (less b)
  have "\<forall>c\<in>set (connectedFiles (h b)). \<exists>sub. deepFiles_forEach h (connectedFiles (h c)) [] = Some sub \<and> distinct sub
              \<and> set sub = (links h)\<^sup>+ `` {c}"
  proof
    fix c assume c: "c \<in> set (connectedFiles (h b))"
    then have "(c, b) \<in> links_below h a" using less.prems by (simp add: links_below_def)
    moreover have "c \<in> reachable h a" using less.prems c
      by (auto simp: reachable_def links_def intro: rtrancl_into_rtrancl)
    ultimately show "\<exists>sub. deepFiles_forEach h (connectedFiles (h c)) [] = Some sub \<and> distinct sub
              \<and> set sub = (links h)\<^sup>+ `` {c}" using less.IH by blast
  qed
  from forEach_ok[OF this, of "[]"] show ?case
    using trancl_children[of h b] by auto
qed

text \<open>
  The getter \<open>deepConnectedFiles\<close> keeps no record of the objects it has been called
  on: every call recurses into the connected files with a new, empty set.  On a heap in
  which two objects are connected to each other the calls would never end.  (The
  constructor connects a new object to objects that exist already, so \<open>File.create\<close>
  builds no such heap; see \<open>File_create_ordered\<close>.)
\<close>

lemma toDirectory_cycle_no_result: "toDirectory cycle_heap 0 = None"
proof (cases "deepFiles_forEach cycle_heap [1] []")
  case None
  then show ?thesis
    by (simp add: toDirectory_def toDirectory_deepFiles_def deepConnectedFiles_def cycle_heap_def)
next
  case (Some y)
  from cycle_heap_no_result[OF this] show ?thesis by simp
qed

lemma reachable_insert: "reachable h a = insert a ((links h)\<^sup>+ `` {a})"
  unfolding reachable_def by (auto simp: rtrancl_eq_or_trancl)

text \<open>
  On every heap in which no endless chain of links can be reached from the starting
  object, \<open>toDirectory\<close> returns, and its set holds the objects reachable from the
  starting object, the object itself included, each object once.
\<close>

lemma toDirectory_acyclic:
  assumes "wf (links_below h a)"
  shows "\<exists>nodes. toDirectory_deepFiles h a = Some nodes \<and> distinct nodes
           \<and> set nodes = reachable h a
           \<and> toDirectory h a = Some (map (\<lambda>file. toIFile (h file)) nodes)"
proof -
  have "a \<in> reachable h a" by (simp add: reachable_def)
  from deep_ok[OF assms this] obtain sub where sub:
    "deepFiles_forEach h (connectedFiles (h a)) [] = Some sub" "distinct sub"
    "set sub = (links h)\<^sup>+ `` {a}" by (elim exE conjE)
  have s: "set (set_add a sub) = reachable h a"
    by (simp only: set_set_add reachable_insert sub(3))
  have d: "distinct (set_add a sub)" using sub(2) by (rule distinct_set_add)
  have t: "toDirectory_deepFiles h a = Some (set_add a sub)"
    by (simp add: toDirectory_deepFiles_def deepConnectedFiles_def sub(1))
  have "toDirectory h a = Some (map (\<lambda>file. toIFile (h file)) (set_add a sub))"
    by (simp add: toDirectory_def t)
  with s d t show ?thesis by (intro exI[of _ "set_add a sub"] conjI)
qed

lemma diamond_heap_wf: "wf (links_below diamond_heap 3)"
proof (rule wf_subset[OF wf_measure[of id]])
  have "\<And>c b. c \<in> set (connectedFiles (diamond_heap b)) \<Longrightarrow> c < b"
    by (auto simp: diamond_heap_def emptyFile_def split: if_splits)
  then show "links_below diamond_heap 3 \<subseteq> measure id"
    unfolding links_below_def by auto
qed

lemma toDirectory_diamond:
  "wf (links_below diamond_heap 3)
   \<and> toDirectory_deepFiles diamond_heap 3 = Some [1, 0, 2, 3]
   \<and> distinct [1, 0, 2, 3::nat] \<and> set [1, 0, 2, 3] = reachable diamond_heap 3
   \<and> toDirectory diamond_heap 3 = Some (map (\<lambda>file. toIFile (diamond_heap file)) [1, 0, 2, 3])"
proof -
  have ev: "toDirectory_deepFiles diamond_heap 3 = Some [1, 0, 2, 3]" by code_simp
  from toDirectory_acyclic[OF diamond_heap_wf] obtain nodes where
    n: "toDirectory_deepFiles diamond_heap 3 = Some nodes" "distinct nodes"
       "set nodes = reachable diamond_heap 3"
       "toDirectory diamond_heap 3 = Some (map (\<lambda>file. toIFile (diamond_heap file)) nodes)"
    by (elim exE conjE)
  from n(1) have nodes: "nodes = [1, 0, 2, 3]" unfolding ev by simp
  show ?thesis
    using diamond_heap_wf n[unfolded nodes] by (intro conjI)
qed

section \<open>Properties of File.create\<close>



lemma File_create_rec_stored:
  "storedFile_of w (getId sp p) p = Some s \<Longrightarrow>
   File_create_rec sp (Create p False) w = Some (Inr ([s], w))"
  by (subst File_create_rec.simps) simp

lemma File_create_rec_build:
  "storedFile_of w (getId sp p) p = None \<or> force \<Longrightarrow>
   File_create_rec sp (Create p force) w =
     Option.bind
       (File_create_rec sp (CreateEach (linkedPaths sp (getId sp p) p))
          (case storedFile_of w (getId sp p) p of Some s \<Rightarrow> detach s w | None \<Rightarrow> w))
       (\<lambda>r. case r of
          Inl e \<Rightarrow> Some (Inl e)
        | Inr (connected, w2) \<Rightarrow>
            (case construct sp (getId sp p) p force (storedFile_of w (getId sp p) p) connected w2
             of Inl e \<Rightarrow> Some (Inl e)
              | Inr (file, w3) \<Rightarrow> Some (Inr ([file], w3))))"
  by (subst File_create_rec.simps) (auto simp: Let_def split: option.splits)

lemma File_create_rec_build_Inr:
  assumes r: "File_create_rec sp (Create p force) w = Some (Inr (files, w'))"
    and b: "storedFile_of w (getId sp p) p = None \<or> force"
  obtains connected w2 newFile where
    "File_create_rec sp (CreateEach (linkedPaths sp (getId sp p) p))
       (case storedFile_of w (getId sp p) p of Some s \<Rightarrow> detach s w | None \<Rightarrow> w)
     = Some (Inr (connected, w2))"
    "construct sp (getId sp p) p force (storedFile_of w (getId sp p) p) connected w2 = Inr (newFile, w')"
    "files = [newFile]"
proof -
  from r File_create_rec_build[OF b] obtain x where
    x: "File_create_rec sp (CreateEach (linkedPaths sp (getId sp p) p))
          (case storedFile_of w (getId sp p) p of Some s \<Rightarrow> detach s w | None \<Rightarrow> w) = Some x"
    and y: "(case x of
          Inl e \<Rightarrow> Some (Inl e)
        | Inr (connected, w2) \<Rightarrow>
            (case construct sp (getId sp p) p force (storedFile_of w (getId sp p) p) connected w2
             of Inl e \<Rightarrow> Some (Inl e)
              | Inr (file, w3) \<Rightarrow> Some (Inr ([file], w3)))) = Some (Inr (files, w'))"
    by (auto simp: Option.bind_eq_Some_conv)
  show thesis
  proof (cases x)
    case (Inl e)
    with y show thesis by simp
  next
    case (Inr cw)
    obtain connected w2 where cw: "cw = (connected, w2)" by (cases cw)
    show thesis
    proof (cases "construct sp (getId sp p) p force (storedFile_of w (getId sp p) p) connected w2")
      case (Inl e)
      with y Inr cw show thesis by simp
    next
      case (Inr fw)
      obtain nf w3 where fw: "fw = (nf, w3)" by (cases fw)
      from y \<open>x = Inr cw\<close> cw Inr fw have "files = [nf]" "w3 = w'" by auto
      with that[of connected w2 nf] x \<open>x = Inr cw\<close> cw Inr fw show thesis by simp
    qed
  qed
qed

lemma error_is_TypeError: "(e::error) = TypeError"
  by (cases e) simp

lemma construct_absent: "construct sp ft p True None connected w = Inl TypeError"
  by (simp add: construct_def)

text \<open>
  Claim C10: for a path that has no node in the registry, \<open>File.create\<close> with the
  force flag never returns a node.  Once the loops over the linked paths have returned,
  the constructor call spreads the parents of the absent stored node and the call fails
  with a \<open>TypeError\<close>; a forced call can only succeed when the path is registered.
\<close>

theorem File_create_forced_absent:
  assumes "storedFile_of w (getId sp p) p = None"
  shows "(\<forall>r. File_create sp p True w \<noteq> Some (Inr r))
       \<and> (File_create_rec sp (CreateEach (linkedPaths sp (getId sp p) p)) w \<noteq> None
            \<longrightarrow> File_create sp p True w = Some (Inl TypeError))"
proof -
  have "File_create_rec sp (Create p True) w = None
      \<or> File_create_rec sp (Create p True) w = Some (Inl TypeError)"
    using assms
    by (cases "File_create_rec sp (CreateEach (linkedPaths sp (getId sp p) p)) w")
       (auto simp: File_create_rec_build construct_absent error_is_TypeError split: sum.splits)
  moreover have "File_create_rec sp (CreateEach (linkedPaths sp (getId sp p) p)) w \<noteq> None
      \<Longrightarrow> File_create_rec sp (Create p True) w = Some (Inl TypeError)"
    using assms
    by (cases "File_create_rec sp (CreateEach (linkedPaths sp (getId sp p) p)) w")
       (auto simp: File_create_rec_build construct_absent error_is_TypeError split: sum.splits)
  ultimately show ?thesis
    by (auto simp: File_create_def)
qed

lemma construct_stores:
  "construct sp ft p force stored connected w = Inr (file, w') \<Longrightarrow> storedFile_of w' ft p = Some file"
  by (auto simp: construct_def storedFile_of_def Let_def split: if_splits option.splits prod.splits sum.splits)

text \<open>
  Claim C8: \<open>File.create\<close> is memoized.  After a call without the force flag has
  returned a node, a second call with the same path (and so the same file type) returns
  the same node and leaves the world (registry, heap and so every edge) as it is.
\<close>

theorem File_create_memoized:
  assumes "File_create sp p False w = Some (Inr (file, w1))"
  shows "File_create sp p False w1 = Some (Inr (file, w1))"
proof -
  have "storedFile_of w1 (getId sp p) p = Some file"
  proof (cases "storedFile_of w (getId sp p) p")
    case None
    from assms obtain files where r: "File_create_rec sp (Create p False) w = Some (Inr (files, w1))"
      and files: "files = [file]"
      by (auto simp: File_create_def split: option.splits sum.splits list.splits)
    from None have "storedFile_of w (getId sp p) p = None \<or> False" by simp
    from File_create_rec_build_Inr[OF r this] obtain connected w2 nf where
      c: "construct sp (getId sp p) p False (storedFile_of w (getId sp p) p) connected w2 = Inr (nf, w1)"
      and "files = [nf]" by blast
    with files have "nf = file" by simp
    with c have "construct sp (getId sp p) p False (storedFile_of w (getId sp p) p) connected w2 = Inr (file, w1)"
      by simp
    then show ?thesis by (rule construct_stores)
  next
    case (Some s)
    with assms show ?thesis
      by (auto simp: File_create_def File_create_rec_stored)
  qed
  then show ?thesis
    by (simp add: File_create_def File_create_rec_stored)
qed






lemma detach_other [simp]:
  "nextAddr (detach s w) = nextAddr w" "fileStore (detach s w) = fileStore w"
  "storedFile_of (detach s w) = storedFile_of w"
  by (auto simp: detach_def storedFile_of_def fun_eq_iff)

lemma new_Set_set [simp]: "set (new_Set xs) = set xs"
  by (simp add: new_Set_def set_fold_set_add)






lemma bind_sum_Inr:
  assumes "Option.bind m (\<lambda>r. case r of Inl e \<Rightarrow> Some (Inl e) | Inr x \<Rightarrow> k x) = Some (Inr z)"
  obtains x where "m = Some (Inr x)" "k x = Some (Inr z)"
  using assms by (cases m) (auto split: sum.splits)






lemma sample_p_returns:
  "(case File_create sample_spider ''BP/p.json'' False empty_world of Some (Inr _) \<Rightarrow> True | _ \<Rightarrow> False)"
  by code_simp

lemma sample_world_created:
  obtains f where "File_create sample_spider ''BP/p.json'' False empty_world = Some (Inr (f, sample_world))"
  using sample_p_returns by (auto simp: sample_world_def split: option.splits sum.splits)





theorem File_create_memoized_witness:
  "\<exists>f w1. File_create sample_spider ''BP/p.json'' False empty_world = Some (Inr (f, w1))
        \<and> File_create sample_spider ''BP/p.json'' False w1 = Some (Inr (f, w1))"
proof -
  obtain f where r: "File_create sample_spider ''BP/p.json'' False empty_world = Some (Inr (f, sample_world))"
    by (rule sample_world_created)
  from File_create_memoized[OF r] r show ?thesis by blast
qed

lemma sample_links_return:
  "\<not> Option.is_none (File_create_rec sample_spider
        (CreateEach (linkedPaths sample_spider (getId sample_spider ''BP/a.json'') ''BP/a.json'')) empty_world)"
  by code_simp

theorem File_create_forced_absent_witness:
  "storedFile_of empty_world (getId sample_spider ''BP/a.json'') ''BP/a.json'' = None
   \<and> (\<forall>r. File_create sample_spider ''BP/a.json'' True empty_world \<noteq> Some (Inr r))
   \<and> File_create sample_spider ''BP/a.json'' True empty_world = Some (Inl TypeError)"
proof -
  have a: "storedFile_of empty_world (getId sample_spider ''BP/a.json'') ''BP/a.json'' = None"
    by (simp add: storedFile_of_def empty_world_def)
  from sample_links_return have "File_create_rec sample_spider
        (CreateEach (linkedPaths sample_spider (getId sample_spider ''BP/a.json'') ''BP/a.json'')) empty_world \<noteq> None"
    by (simp add: Option.is_none_def)
  with File_create_forced_absent[OF a] a show ?thesis by blast
qed

subsection \<open>The graphs that File.create builds\<close>



lemma ordered_reachable:
  assumes o: "ordered w" and a: "a < nextAddr w" and b: "b \<in> reachable (heap w) a"
  shows "b \<le> a"
proof -
  from b have "(a, b) \<in> (links (heap w))\<^sup>*" by (simp add: reachable_def)
  then show ?thesis
  proof (induction rule: rtrancl_induct)
    case base
    then show ?case by simp
  next
    case (step b c)
    from step(3) a have "b < nextAddr w" by simp
    moreover from step(2) have "c \<in> set (connectedFiles (heap w b))" by (simp add: links_def)
    ultimately have "c < b" using o by (simp add: ordered_def)
    with step(3) show ?case by simp
  qed
qed

lemma ordered_wf:
  assumes o: "ordered w" and a: "a < nextAddr w"
  shows "wf (links_below (heap w) a)"
proof (rule wf_subset[OF wf_measure[of id]])
  show "links_below (heap w) a \<subseteq> measure id"
  proof
    fix x assume x: "x \<in> links_below (heap w) a"
    obtain c b where cb: "x = (c, b)" by (cases x)
    with x have b: "b \<in> reachable (heap w) a" and c: "c \<in> set (connectedFiles (heap w b))"
      by (simp_all add: links_below_def)
    from ordered_reachable[OF o a b] a have "b < nextAddr w" by simp
    with c o have "c < b" by (simp add: ordered_def)
    with cb show "x \<in> measure id" by simp
  qed
qed


lemma toDirectory_returns_when_ordered:
  assumes o: "ordered w" and a: "a < nextAddr w"
  shows "\<exists>files. toDirectory (heap w) a = Some files"
proof -
  have "a \<in> reachable (heap w) a" by (simp add: reachable_def)
  from deep_ok[OF ordered_wf[OF o a] this] show ?thesis
    by (auto simp: toDirectory_def toDirectory_deepFiles_def deepConnectedFiles_def)
qed

subsection \<open>Forced re-creation\<close>








text \<open>
  Where the links among the unregistered paths are not well-founded the calls need not
  end: the cache data of \<open>BP/loop.json\<close> names the file itself, and the file is
  created again and again before it is ever registered.
\<close>

lemma loop_no_result:
  assumes "File_create_rec sp t w = Some r"
  shows "sp = sample_spider \<longrightarrow> w = empty_world \<longrightarrow>
           t \<noteq> Create ''BP/loop.json'' False \<and> t \<noteq> CreateEach [''BP/loop.json'']"
proof (rule File_create_rec.raw_induct[where P = "\<lambda>sp t w r.
      sp = sample_spider \<longrightarrow> w = empty_world \<longrightarrow>
           t \<noteq> Create ''BP/loop.json'' False \<and> t \<noteq> CreateEach [''BP/loop.json'']", OF _ assms])
  fix rec :: "PackSpider \<Rightarrow> request \<Rightarrow> world \<Rightarrow> (error + addr list \<times> world) option"
    and sp t w r
  assume IH: "\<And>sp t w r. rec sp t w = Some r \<Longrightarrow>
      sp = sample_spider \<longrightarrow> w = empty_world \<longrightarrow>
           t \<noteq> Create ''BP/loop.json'' False \<and> t \<noteq> CreateEach [''BP/loop.json'']"
  assume body: "(case t of
        CreateEach paths \<Rightarrow>
          (case paths of
             [] \<Rightarrow> Some (Inr ([], w))
           | path # rest \<Rightarrow>
               Option.bind (rec sp (Create path False) w)
                 (\<lambda>r. case r of
                    Inl e \<Rightarrow> Some (Inl e)
                  | Inr (file, w1) \<Rightarrow>
                      Option.bind (rec sp (CreateEach rest) w1)
                        (\<lambda>r1. case r1 of
                           Inl e \<Rightarrow> Some (Inl e)
                         | Inr (files, w2) \<Rightarrow> Some (Inr (file @ files, w2)))))
      | Create path forceUpdate \<Rightarrow>
          (let fileType = getId sp path;
               storedFile = storedFile_of w fileType path
           in case (case storedFile of
                      Some s \<Rightarrow> if \<not> forceUpdate then Inl s else Inr (detach s w)
                    | None \<Rightarrow> Inr w)
              of Inl s \<Rightarrow> Some (Inr ([s], w))
               | Inr w1 \<Rightarrow>
                   Option.bind
                     (rec sp (CreateEach (linkedPaths sp fileType path)) w1)
                     (\<lambda>r. case r of
                        Inl e \<Rightarrow> Some (Inl e)
                      | Inr (connected, w2) \<Rightarrow>
                          (case construct sp fileType path forceUpdate storedFile
                                  connected w2
                           of Inl e \<Rightarrow> Some (Inl e)
                            | Inr (file, w3) \<Rightarrow> Some (Inr ([file], w3)))))) = Some r"
  show "sp = sample_spider \<longrightarrow> w = empty_world \<longrightarrow>
           t \<noteq> Create ''BP/loop.json'' False \<and> t \<noteq> CreateEach [''BP/loop.json'']"
  proof (intro impI conjI notI)
    assume sp: "sp = sample_spider" and w: "w = empty_world" and t: "t = Create ''BP/loop.json'' False"
    have lp: "linkedPaths sample_spider ''entity'' ''BP/loop.json'' = [''BP/loop.json'']"
      by code_simp
    have st: "storedFile_of empty_world ''entity'' ''BP/loop.json'' = None"
      by (simp add: storedFile_of_def empty_world_def)
    have ft: "getId sample_spider ''BP/loop.json'' = ''entity''" by (simp add: sample_spider_def)
    from body obtain r' where "rec sample_spider (CreateEach [''BP/loop.json'']) empty_world = Some r'"
      unfolding t sp w by (simp add: ft st lp Option.bind_eq_Some_conv) blast
    from IH[OF this] show False by simp
  next
    assume sp: "sp = sample_spider" and w: "w = empty_world" and t: "t = CreateEach [''BP/loop.json'']"
    from body obtain r' where "rec sample_spider (Create ''BP/loop.json'' False) empty_world = Some r'"
      unfolding t sp w by (simp add: Option.bind_eq_Some_conv) blast
    from IH[OF this] show False by simp
  qed
qed

lemma File_create_loop_no_result:
  "File_create sample_spider ''BP/loop.json'' False empty_world = None"
proof (cases "File_create_rec sample_spider (Create ''BP/loop.json'' False) empty_world")
  case None
  then show ?thesis by (simp add: File_create_def)
next
  case (Some r)
  from loop_no_result[OF this] show ?thesis by simp
qed

lemma loop_not_wf: "\<not> wf (pending_links sample_spider empty_world ''BP/loop.json'')"
proof
  assume "wf (pending_links sample_spider empty_world ''BP/loop.json'')"
  moreover have "(''BP/loop.json'', ''BP/loop.json'') \<in> pending_links sample_spider empty_world ''BP/loop.json''"
    by (simp add: pending_links_def linked_def registered_def storedFile_of_def empty_world_def)
       code_simp
  ultimately show False by auto
qed









subsection \<open>The directory of a re-created file\<close>

text \<open>
  Claim C1 fails on the code.  \<open>toDirectory\<close> returns in every world that
  \<open>File.create\<close> builds, but its set holds objects, and a forced re-creation leaves the
  replaced object connected to its former parents.  \<open>BP/b.json\<close> includes
  \<open>a.json\<close>, and \<open>File.create\<close> allocates object 0 for \<open>BP/a.json\<close> and object 1
  for \<open>BP/b.json\<close>.  Then \<open>BP/a.json\<close> includes \<open>b.json\<close> and is created again
  with \<open>forceUpdate\<close>: object 2, connected to object 1, takes its place in the
  registry, while object 1 is still connected to object 0.  A links B and B links A, and
  the directory of A lists \<open>BP/a.json\<close> twice: once for the replaced object and once
  for the new one.
\<close>

theorem toDirectory_lists_recreated_file_twice:
  "(case relinked of
      Some (Inr (file, w)) \<Rightarrow>
        file = 2 \<and> storedFile_of w ''entity'' ''BP/a.json'' = Some 2
        \<and> connectedFiles (heap w 2) = [1] \<and> connectedFiles (heap w 1) = [0]
        \<and> toDirectory_deepFiles (heap w) file = Some [1, 0, 2]
        \<and> toDirectory (heap w) file
            = Some [\<lparr>kind = ''file'', name = ''b.json'', filePath = ''BP/b.json''\<rparr>,
                    \<lparr>kind = ''file'', name = ''a.json'', filePath = ''BP/a.json''\<rparr>,
                    \<lparr>kind = ''file'', name = ''a.json'', filePath = ''BP/a.json''\<rparr>]
    | _ \<Rightarrow> False)"
  by code_simp

section \<open>Properties of the indexing cache\<close>

lemma map_of_upsert: "map_of (upsert k v kvs) = (map_of kvs)(k \<mapsto> v)"
  by (induction kvs) (auto simp: fun_eq_iff)

lemma store_get_add:
  "store_get (lightningStore (add_entry path entry fileType s)) path fileType = Some entry"
  by (simp add: add_entry_def logged_def store_add_def store_get_def map_of_upsert)

lemma trace_add_entry: "trace (add_entry path entry fileType s) = trace s @ [StoreAdd fileType path entry]"
  by (simp add: add_entry_def logged_def)

lemma processFile_same:
  assumes "getLastModified (lightningStore s) path (FileType_getId sv path) = Some (file_lastModified file)"
  shows "processFile sv path file s =
     Inr (False, s\<lparr>lightningStore := setVisited (lightningStore s) path True (FileType_getId sv path),
                    trace := trace s @ [StoreSetVisited (FileType_getId sv path) path]\<rparr>)"
  using assms by (simp add: processFile_def logged_def Let_def)

text \<open>
  Claim C3: when the record stored for a file has the file's timestamp as its
  \<open>lastModified\<close>, \<open>processFile\<close> marks the file visited in the store and returns
  false.  The only call it makes is \<open>setVisited\<close>: nothing is read or parsed, no
  instructions are loaded or evaluated, and no record is written (the records of the
  store are the same afterwards).  The callback of \<open>start\<close> then leaves the list of
  changed files as it is.
\<close>

theorem processFile_unchanged:
  assumes "getLastModified (lightningStore s) path (FileType_getId sv path) = Some (file_lastModified file)"
  shows "\<exists>s' s''. processFile sv path file s = Inr (False, s')
     \<and> (FileType_getId sv path, path) \<in> set (visited (lightningStore s'))
     \<and> store (lightningStore s') = store (lightningStore s)
     \<and> trace s' = trace s @ [StoreSetVisited (FileType_getId sv path) path]
     \<and> start_callback sv file path s = Inr s''
     \<and> changedFiles s'' = changedFiles s \<and> anyFileChanged s'' = anyFileChanged s
     \<and> filePaths s'' = filePaths s @ [path] \<and> trace s'' = trace s'"
  using processFile_same[OF assms]
  by (simp add: start_callback_def setVisited_def set_set_add)

theorem processFile_unchanged_witness:
  "getLastModified (lightningStore known_scan) ''root/a.json''
      (FileType_getId (sample_services known_project) ''root/a.json'') = Some 100
   \<and> (\<exists>s' s''. processFile (sample_services known_project) ''root/a.json''
            \<lparr>file_lastModified = 100, file_text = sample_text\<rparr> known_scan = Inr (False, s')
        \<and> store (lightningStore s') = store (lightningStore known_scan)
        \<and> trace s' = [StoreSetVisited ''x'' ''root/a.json'']
        \<and> start_callback (sample_services known_project)
              \<lparr>file_lastModified = 100, file_text = sample_text\<rparr> ''root/a.json'' known_scan = Inr s''
        \<and> changedFiles s'' = [])"
proof -
  have h: "getLastModified (lightningStore known_scan) ''root/a.json''
      (FileType_getId (sample_services known_project) ''root/a.json'')
      = Some (file_lastModified \<lparr>file_lastModified = 100, file_text = sample_text\<rparr>)"
    by code_simp
  have t: "trace known_scan = []" "changedFiles known_scan = []"
    "FileType_getId (sample_services known_project) ''root/a.json'' = ''x''"
    by (simp_all add: known_scan_def empty_scan_def sample_services_def)
  from processFile_unchanged[OF h] h show ?thesis
    by (simp add: t) blast
qed

lemma processFile_bad_json:
  assumes ext: "extname sv path = ''.json''"
    and changed: "getLastModified (lightningStore s) path (FileType_getId sv path) \<noteq> Some (file_lastModified file)"
    and bad: "json5_parse sv (file_text file) = None"
  shows "processFile sv path file s =
     Inr (True, add_entry path \<lparr>lastModified = file_lastModified file, data = None\<rparr> (FileType_getId sv path)
                  (s\<lparr>trace := trace s @ [ReadText path, ParseJSON path]\<rparr>))"
  using assms by (auto simp: processFile_def processJSON_def logged_def Let_def)

text \<open>
  Claim C9: a JSON file whose timestamp differs from the stored one and whose content
  does not parse is processed without an error.  \<open>processFile\<close> reads and parses it
  once, stores a record that has the file's timestamp and no data, and returns true; the
  walk adds the path to the changed files and goes on with the rest of the directory.
\<close>

theorem processFile_malformed_json:
  assumes hid: "\<not> hidden entryName" and path: "path = join_path fullPath entryName"
    and ext: "extname sv path = ''.json''"
    and changed: "getLastModified (lightningStore s) path (FileType_getId sv path) \<noteq> Some (file_lastModified file)"
    and bad: "json5_parse sv (file_text file) = None"
  shows "\<exists>s1 s'. processFile sv path file s = Inr (True, s1)
     \<and> store_get (lightningStore s1) path (FileType_getId sv path)
          = Some \<lparr>lastModified = file_lastModified file, data = None\<rparr>
     \<and> trace s1 = trace s @ [ReadText path, ParseJSON path,
           StoreAdd (FileType_getId sv path) path \<lparr>lastModified = file_lastModified file, data = None\<rparr>]
     \<and> iterateDir (start_callback sv) (FileEntry entryName file # rest) fullPath s
          = iterateDir (start_callback sv) rest fullPath s'
     \<and> lightningStore s' = lightningStore s1 \<and> trace s' = trace s1
     \<and> changedFiles s' = changedFiles s @ [path] \<and> anyFileChanged s'
     \<and> filePaths s' = filePaths s @ [path]"
proof -
  let ?e = "\<lparr>lastModified = file_lastModified file, data = None\<rparr>"
  let ?ft = "FileType_getId sv path"
  let ?s0 = "s\<lparr>progress_total := progress_total s + 2\<rparr>"
  have p1: "processFile sv path file s = Inr (True, add_entry path ?e ?ft (s\<lparr>trace := trace s @ [ReadText path, ParseJSON path]\<rparr>))"
    using ext changed bad by (rule processFile_bad_json)
  have "getLastModified (lightningStore ?s0) path ?ft \<noteq> Some (file_lastModified file)"
    using changed by simp
  from processFile_bad_json[OF ext this bad]
  have p2: "processFile sv path file ?s0 = Inr (True, add_entry path ?e ?ft (?s0\<lparr>trace := trace ?s0 @ [ReadText path, ParseJSON path]\<rparr>))" .
  let ?s1 = "add_entry path ?e ?ft (s\<lparr>trace := trace s @ [ReadText path, ParseJSON path]\<rparr>)"
  let ?s2 = "add_entry path ?e ?ft (?s0\<lparr>trace := trace ?s0 @ [ReadText path, ParseJSON path]\<rparr>)"
  let ?s' = "?s2\<lparr>anyFileChanged := True, changedFiles := changedFiles ?s2 @ [path],
                filePaths := filePaths ?s2 @ [path], progress_current := progress_current ?s2 + 1\<rparr>"
  have cb: "start_callback sv file path ?s0 = Inr ?s'"
    unfolding start_callback_def p2 by (simp add: Let_def)
  have it: "iterateDir (start_callback sv) (FileEntry entryName file # rest) fullPath s
      = iterateDir (start_callback sv) rest fullPath ?s'"
    unfolding iterateDir.simps path[symmetric] cb using hid by simp
  have g: "store_get (lightningStore ?s1) path ?ft = Some ?e" by (rule store_get_add)
  have t: "trace ?s1 = trace s @ [ReadText path, ParseJSON path, StoreAdd ?ft path ?e]"
    by (simp add: trace_add_entry)
  have rest: "lightningStore ?s' = lightningStore ?s1" "trace ?s' = trace ?s1"
     "changedFiles ?s' = changedFiles s @ [path]" "anyFileChanged ?s'" "filePaths ?s' = filePaths s @ [path]"
    by (simp_all add: add_entry_def logged_def)
  from p1 g t it rest show ?thesis by blast
qed

lemma broken_first:
  "extname (sample_services broken_project) ''bad.json'' = ''.json''"
  "getLastModified (lightningStore empty_scan) ''bad.json'' (FileType_getId (sample_services broken_project) ''bad.json'')
     \<noteq> Some (file_lastModified \<lparr>file_lastModified = 7, file_text = ''{''\<rparr>)"
  "json5_parse (sample_services broken_project) (file_text \<lparr>file_lastModified = 7, file_text = ''{''\<rparr>) = None"
  "\<not> hidden ''bad.json''" "''bad.json'' = join_path [] ''bad.json''"
  by code_simp+

theorem processFile_malformed_json_witness:
  "\<not> hidden ''bad.json'' \<and> ''bad.json'' = join_path [] ''bad.json''
   \<and> extname (sample_services broken_project) ''bad.json'' = ''.json''
   \<and> getLastModified (lightningStore empty_scan) ''bad.json'' (FileType_getId (sample_services broken_project) ''bad.json'')
     \<noteq> Some (file_lastModified \<lparr>file_lastModified = 7, file_text = ''{''\<rparr>)
   \<and> json5_parse (sample_services broken_project) (file_text \<lparr>file_lastModified = 7, file_text = ''{''\<rparr>) = None
   \<and> (\<exists>s1 s'. processFile (sample_services broken_project) ''bad.json'' \<lparr>file_lastModified = 7, file_text = ''{''\<rparr> empty_scan
           = Inr (True, s1)
        \<and> iterateDir (start_callback (sample_services broken_project)) broken_project [] empty_scan
          = iterateDir (start_callback (sample_services broken_project)) (tl broken_project) [] s'
        \<and> changedFiles s' = [''bad.json''])"
proof -
  have b: "broken_project = FileEntry ''bad.json'' \<lparr>file_lastModified = 7, file_text = ''{''\<rparr> # tl broken_project"
    by (simp add: broken_project_def)
  have c: "changedFiles empty_scan = []" by (simp add: empty_scan_def)
  from processFile_malformed_json[OF broken_first(4,5,1,2,3), of "tl broken_project"]
  obtain s1 s' where "processFile (sample_services broken_project) ''bad.json'' \<lparr>file_lastModified = 7, file_text = ''{''\<rparr> empty_scan
           = Inr (True, s1)"
    "iterateDir (start_callback (sample_services broken_project))
        (FileEntry ''bad.json'' \<lparr>file_lastModified = 7, file_text = ''{''\<rparr> # tl broken_project) [] empty_scan
          = iterateDir (start_callback (sample_services broken_project)) (tl broken_project) [] s'"
    "changedFiles s' = changedFiles empty_scan @ [''bad.json'']"
    by blast
  with b c broken_first show ?thesis by (metis append_Nil)
qed

text \<open>
  Claim C2 fails on the code.  A text file with a changed timestamp whose file type has a
  script, here with a function that returns \<open>{lines: [text]}\<close>: \<open>processText\<close>
  first adds the record with the returned mapping as its data, and then, for want of a
  \<open>return\<close>, adds a record with the timestamp alone for the same file.  The store
  replaces a record as a whole, so the record that stays has no data.
\<close>

theorem processText_data_overwritten:
  "map_sum id (\<lambda>(changed, s). (changed, store (lightningStore s), trace s))
     (processFile (sample_services []) ''notes.txt'' \<lparr>file_lastModified = 5, file_text = ''hello''\<rparr> empty_scan)
   = Inr (True,
          [((''x'', ''notes.txt''), \<lparr>lastModified = 5, data = None\<rparr>)],
          [GetLightningCache ''notes.txt'', RunScript ''notes.txt'', ReadText ''notes.txt'',
           StoreAdd ''x'' ''notes.txt'' \<lparr>lastModified = 5, data = Some [(''lines'', [JStr ''hello''])]\<rparr>,
           StoreAdd ''x'' ''notes.txt'' \<lparr>lastModified = 5, data = None\<rparr>])"
  by code_simp

text \<open>
  Claim C6 fails on the code.  The first values received for an output key are stored as
  they are; only the branch for a key that already has values goes through a \<open>Set\<close>.
  With the filter \<open>["x"]\<close>, the values \<open>["y", "x", "y"]\<close> from a single path are
  stored as \<open>["y", "y"]\<close>, which is not deduplicated.  (The example of the claim,
  \<open>["x", "y", "x"]\<close>, does yield \<open>["y"]\<close>, and a second receipt for the same key
  stores the deduplicated union.)
\<close>

theorem onReceiveData_first_values_not_deduplicated:
  "for_each (evalInstruction sv (JObj 0 [(''ids'', JArr 1 [JStr ''y'', JStr ''x'', JStr ''y''])]))
     [\<lparr>at_filter = Some [''x''], at_map = None, properties = [(''k'', OnePath ''ids'')]\<rparr>] []
   = Inr [(''k'', [JStr ''y'', JStr ''y''])]"
  by code_simp

lemma onReceiveData_filter_example:
  "onReceiveData sv ''k'' (Some [''x'']) None (JArr 0 [JStr ''x'', JStr ''y'', JStr ''x'']) []
   = Inr [(''k'', [JStr ''y''])]"
  by code_simp

lemma readyData_cases:
  "(if Array_isArray d then elements d
    else if typeof d = ''object'' then map JStr (Object_keys_or_empty d)
    else [d])
   = (case d of
        JArr r xs \<Rightarrow> xs
      | JObj r kvs \<Rightarrow> map (\<lambda>(k, v). JStr k) kvs
      | JNull \<Rightarrow> []
      | _ \<Rightarrow> [d])"
  by (cases d) (simp_all add: Array_isArray_def elements_def typeof_def Object_keys_or_empty_def
      case_prod_beta)

lemma includes_filter:
  "List.filter (\<lambda>d. \<not> (\<exists>x\<in>set fs. JStr x = d)) xs = [v \<leftarrow> xs. v \<notin> JStr ` set fs]"
  by (rule filter_cong) auto

lemma onReceiveData_eq:
  "onReceiveData sv key flt mapFunc d collectedData =
     (let normalized =
            (case d of
               JArr r xs \<Rightarrow> xs
             | JObj r kvs \<Rightarrow> map (\<lambda>(k, v). JStr k) kvs
             | JNull \<Rightarrow> []
             | _ \<Rightarrow> [d]);
          filtered = (case flt of None \<Rightarrow> normalized
                      | Some fs \<Rightarrow> [v \<leftarrow> normalized. v \<notin> JStr ` set fs]);
          mapped = (case mapFunc of None \<Rightarrow> filtered
                    | Some m \<Rightarrow> if m = [] then filtered else List.map_filter (run sv m) filtered)
      in case map_of collectedData key of
           Some old \<Rightarrow> Inr (upsert key (new_Set (old @ mapped)) collectedData)
         | None \<Rightarrow> if key \<in> set Object_prototype_keys then Inl TypeError
                   else Inr (upsert key mapped collectedData))"
proof -
  define n where "n = (case d of
               JArr r xs \<Rightarrow> xs
             | JObj r kvs \<Rightarrow> map (\<lambda>(k, v). JStr k) kvs
             | JNull \<Rightarrow> []
             | _ \<Rightarrow> [d])"
  have l: "onReceiveData sv key flt mapFunc d collectedData =
     (let readyData = n;
          readyData = (case flt of
                         Some fs \<Rightarrow> [v \<leftarrow> readyData. v \<notin> JStr ` set fs]
                       | None \<Rightarrow> readyData);
          readyData = (case mapFunc of
                         Some m \<Rightarrow> if m \<noteq> [] then List.map_filter (\<lambda>v. run sv m v) readyData
                                   else readyData
                       | None \<Rightarrow> readyData)
      in case get_property collectedData key of
           Undefined \<Rightarrow> Inr (upsert key readyData collectedData)
         | Own old \<Rightarrow> Inr (upsert key (new_Set (old @ readyData)) collectedData)
         | Inherited \<Rightarrow> Inl TypeError)"
    unfolding onReceiveData_def readyData_cases includes_filter n_def ..
  show ?thesis
    unfolding l n_def[symmetric]
    by (cases flt; cases mapFunc; cases "map_of collectedData key")
       (simp_all add: Let_def get_property_def)
qed

text \<open>
  Claim C5, as stated, fails for the scalar \<open>null\<close>: \<open>typeof null\<close> is
  \<open>'object'\<close>, so the value goes through \<open>Object.keys(data ?? {})\<close> and becomes the
  empty list, not a single-element list.  For the instruction \<open>{k: "v"}\<close> and the
  document \<open>{v: null}\<close> the key \<open>k\<close> gets no value at all.
\<close>

theorem null_is_not_a_single_element_list:
  "evalInstruction (sample_services []) (JObj 0 [(''v'', JNull)])
      \<lparr>at_filter = None, at_map = None, properties = [(''k'', OnePath ''v'')]\<rparr> []
   = Inr [(''k'', [])]
   \<and> evalInstruction (sample_services []) (JObj 0 [(''v'', JNull)])
      \<lparr>at_filter = None, at_map = None, properties = [(''k'', OnePath ''v'')]\<rparr> []
   \<noteq> Inr [(''k'', [JNull])]"
  by code_simp

lemma evalInstruction_sample:
  "for_each (evalInstruction sv sample_doc) [sample_instruction] [] = Inr [(''path'', [JStr ''a'', JStr ''b''])]"
  by code_simp

text \<open>
  Claim C5, amended.  In every call of the callback, whatever the key, the filter, the
  map function and the values collected so far, the value matched at a target path is
  first normalized as follows: an array is kept as it is, an object becomes the list of
  its keys, \<open>null\<close> becomes the empty list, and any other scalar (a string, a number,
  a boolean) becomes a single-element list.  The normalized values then go through the
  filter and the map function and into the list of the output key.  The instruction
  \<open>{path: "entries[].id"}\<close> evaluated against the document
  \<open>{entries: [{id: "a"}, {id: "b"}]}\<close> yields \<open>["a", "b"]\<close> for the key
  \<open>path\<close>, and \<open>processJSON\<close> stores that list in the record of the file.
\<close>

theorem processJSON_normalizes:
  "onReceiveData sv key flt mapFunc d collectedData =
     (let normalized =
            (case d of
               JArr r xs \<Rightarrow> xs
             | JObj r kvs \<Rightarrow> map (\<lambda>(k, v). JStr k) kvs
             | JNull \<Rightarrow> []
             | _ \<Rightarrow> [d]);
          filtered = (case flt of None \<Rightarrow> normalized
                      | Some fs \<Rightarrow> [v \<leftarrow> normalized. v \<notin> JStr ` set fs]);
          mapped = (case mapFunc of None \<Rightarrow> filtered
                    | Some m \<Rightarrow> if m = [] then filtered else List.map_filter (run sv m) filtered)
      in case map_of collectedData key of
           Some old \<Rightarrow> Inr (upsert key (new_Set (old @ mapped)) collectedData)
         | None \<Rightarrow> if key \<in> set Object_prototype_keys then Inl TypeError
                   else Inr (upsert key mapped collectedData))
   \<and> for_each (evalInstruction sv sample_doc) [sample_instruction] []
       = Inr [(''path'', [JStr ''a'', JStr ''b''])]
   \<and> (json5_parse sv (file_text diskFile) = Some sample_doc
        \<and> FileType_getLightningCache sv path = Instructions [sample_instruction]
      \<longrightarrow> (\<exists>s'. processJSON sv path fileType diskFile s = Inr s'
            \<and> store_get (lightningStore s') path fileType
                = Some \<lparr>lastModified = file_lastModified diskFile,
                         data = Some [(''path'', [JStr ''a'', JStr ''b''])]\<rparr>))"
proof (intro conjI impI)
  show "onReceiveData sv key flt mapFunc d collectedData =
     (let normalized =
            (case d of
               JArr r xs \<Rightarrow> xs
             | JObj r kvs \<Rightarrow> map (\<lambda>(k, v). JStr k) kvs
             | JNull \<Rightarrow> []
             | _ \<Rightarrow> [d]);
          filtered = (case flt of None \<Rightarrow> normalized
                      | Some fs \<Rightarrow> [v \<leftarrow> normalized. v \<notin> JStr ` set fs]);
          mapped = (case mapFunc of None \<Rightarrow> filtered
                    | Some m \<Rightarrow> if m = [] then filtered else List.map_filter (run sv m) filtered)
      in case map_of collectedData key of
           Some old \<Rightarrow> Inr (upsert key (new_Set (old @ mapped)) collectedData)
         | None \<Rightarrow> if key \<in> set Object_prototype_keys then Inl TypeError
                   else Inr (upsert key mapped collectedData))"
    by (rule onReceiveData_eq)
  show "for_each (evalInstruction sv sample_doc) [sample_instruction] []
       = Inr [(''path'', [JStr ''a'', JStr ''b''])]"
    by (rule evalInstruction_sample)
  assume a: "json5_parse sv (file_text diskFile) = Some sample_doc
        \<and> FileType_getLightningCache sv path = Instructions [sample_instruction]"
  let ?s = "logged (GetLightningCache path) (logged (ParseJSON path) (logged (ReadText path) s))"
  let ?e = "\<lparr>lastModified = file_lastModified diskFile, data = Some [(''path'', [JStr ''a'', JStr ''b''])]\<rparr>"
  have "processJSON sv path fileType diskFile s = Inr (add_entry path ?e fileType ?s)"
    using a unfolding processJSON_def Let_def
    by (simp only: option.case instructions.case list.size evalInstruction_sample) simp
  then show "\<exists>s'. processJSON sv path fileType diskFile s = Inr s'
            \<and> store_get (lightningStore s') path fileType = Some ?e"
    by (simp add: store_get_add)
qed

theorem processJSON_normalizes_witness:
  "json5_parse (sample_services []) (file_text \<lparr>file_lastModified = 8, file_text = sample_text\<rparr>) = Some sample_doc
   \<and> FileType_getLightningCache (sample_services []) ''a.json'' = Instructions [sample_instruction]
   \<and> (\<exists>s'. processJSON (sample_services []) ''a.json'' ''x''
          \<lparr>file_lastModified = 8, file_text = sample_text\<rparr> empty_scan = Inr s'
        \<and> store_get (lightningStore s') ''a.json'' ''x''
          = Some \<lparr>lastModified = 8, data = Some [(''path'', [JStr ''a'', JStr ''b''])]\<rparr>)"
proof -
  have a: "json5_parse (sample_services []) (file_text \<lparr>file_lastModified = 8, file_text = sample_text\<rparr>) = Some sample_doc"
    by code_simp
  have b: "FileType_getLightningCache (sample_services []) ''a.json'' = Instructions [sample_instruction]"
    by code_simp
  from processJSON_normalizes[where sv = "sample_services []" and path = "''a.json''" and fileType = "''x''"
      and s = empty_scan and diskFile = "\<lparr>file_lastModified = 8, file_text = sample_text\<rparr>"]
    a b show ?thesis by simp
qed

lemma walk_inv_refl: "walk_inv s s"
  by (simp add: walk_inv_def)

lemma walk_inv_trans:
  assumes "walk_inv s s1" "walk_inv s1 s2"
  shows "walk_inv s s2"
proof -
  from assms(1) have "\<exists>evs. trace s1 = trace s @ evs \<and> StoreSave \<notin> set evs"
    by (simp add: walk_inv_def)
  then obtain e1 where "trace s1 = trace s @ e1" "StoreSave \<notin> set e1" by blast
  moreover from assms(2) have "\<exists>evs. trace s2 = trace s1 @ evs \<and> StoreSave \<notin> set evs"
    by (simp add: walk_inv_def)
  then obtain e2 where "trace s2 = trace s1 @ e2" "StoreSave \<notin> set e2" by blast
  ultimately have "trace s2 = trace s @ (e1 @ e2) \<and> StoreSave \<notin> set (e1 @ e2)" by simp
  then have "\<exists>evs. trace s2 = trace s @ evs \<and> StoreSave \<notin> set evs" by blast
  with assms show ?thesis by (simp add: walk_inv_def)
qed

lemma walk_inv_add_entry: "walk_inv s (add_entry path e ft s)"
  by (simp add: walk_inv_def add_entry_def logged_def store_add_def)

lemma walk_inv_logged: "ev \<noteq> StoreSave \<Longrightarrow> walk_inv s (logged ev s)"
  by (simp add: walk_inv_def logged_def)

lemma processJSON_Inr:
  assumes "processJSON sv path ft f s = Inr s'"
  obtains e where
    "s' = add_entry path e ft (logged (ParseJSON path) (logged (ReadText path) s))
     \<or> s' = add_entry path e ft
              (logged (GetLightningCache path) (logged (ParseJSON path) (logged (ReadText path) s)))"
  using assms unfolding processJSON_def Let_def
  by (auto split: option.splits instructions.splits if_splits sum.splits)

lemma walk_inv_processJSON:
  assumes "processJSON sv path ft f s = Inr s'"
  shows "walk_inv s s'"
proof -
  let ?s1 = "logged (ParseJSON path) (logged (ReadText path) s)"
  have 1: "walk_inv s ?s1"
    by (intro walk_inv_trans[OF walk_inv_logged walk_inv_logged]) simp_all
  have 2: "walk_inv s (logged (GetLightningCache path) ?s1)"
    by (rule walk_inv_trans[OF 1 walk_inv_logged]) simp
  from assms obtain e where "s' = add_entry path e ft ?s1
     \<or> s' = add_entry path e ft (logged (GetLightningCache path) ?s1)"
    by (rule processJSON_Inr)
  then show ?thesis
    using walk_inv_trans[OF 1 walk_inv_add_entry] walk_inv_trans[OF 2 walk_inv_add_entry] by auto
qed

lemma walk_inv_processText:
  assumes "processText sv path ft f s = Inr s'"
  shows "walk_inv s s'"
proof -
  let ?s1 = "logged (GetLightningCache path) s"
  let ?s2 = "logged (RunScript path) ?s1"
  let ?s3 = "logged (ReadText path) ?s2"
  have 1: "walk_inv s ?s1" by (rule walk_inv_logged) simp
  have 2: "walk_inv s ?s2" by (rule walk_inv_trans[OF 1 walk_inv_logged]) simp
  have 3: "walk_inv s ?s3" by (rule walk_inv_trans[OF 2 walk_inv_logged]) simp
  have 4: "\<And>e. walk_inv s (add_entry path e ft ?s1)" by (rule walk_inv_trans[OF 1 walk_inv_add_entry])
  have 5: "\<And>e e'. walk_inv s (add_entry path e ft (add_entry path e' ft ?s3))"
    by (rule walk_inv_trans[OF walk_inv_trans[OF 3 walk_inv_add_entry] walk_inv_add_entry])
  from assms show ?thesis
    unfolding processText_def Let_def
    by (auto split: option.splits instructions.splits simp: 2 4 5)
qed

lemma walk_inv_processFile:
  assumes "processFile sv path f s = Inr (b, s')"
  shows "walk_inv s s'" "anyFileChanged s' = anyFileChanged s" "changedFiles s' = changedFiles s"
proof -
  have v: "walk_inv s (logged (StoreSetVisited (FileType_getId sv path) path)
                            (s\<lparr>lightningStore := setVisited (lightningStore s) path True (FileType_getId sv path)\<rparr>))"
    by (simp add: walk_inv_def logged_def setVisited_def)
  from assms show w: "walk_inv s s'"
    unfolding processFile_def Let_def
    by (auto split: if_splits sum.splits simp: v walk_inv_add_entry
          dest: walk_inv_processText walk_inv_processJSON)
  have frame: "\<And>p e ft s. anyFileChanged (add_entry p e ft s) = anyFileChanged s \<and> changedFiles (add_entry p e ft s) = changedFiles s"
    "\<And>ev s. anyFileChanged (logged ev s) = anyFileChanged s \<and> changedFiles (logged ev s) = changedFiles s"
    by (simp_all add: add_entry_def logged_def)
  have j: "\<And>s'. processJSON sv path (FileType_getId sv path) f s = Inr s' \<Longrightarrow>
      anyFileChanged s' = anyFileChanged s \<and> changedFiles s' = changedFiles s"
    by (erule processJSON_Inr) (auto simp: frame)
  have t: "\<And>s'. processText sv path (FileType_getId sv path) f s = Inr s' \<Longrightarrow>
      anyFileChanged s' = anyFileChanged s \<and> changedFiles s' = changedFiles s"
    unfolding processText_def Let_def
    by (auto split: option.splits instructions.splits simp: frame)
  from assms show "anyFileChanged s' = anyFileChanged s" "changedFiles s' = changedFiles s"
    unfolding processFile_def Let_def
    by (auto split: if_splits sum.splits simp: frame dest: t j)
qed

lemma start_callback_Inr:
  assumes "start_callback sv f path s = Inr s'"
  obtains b s1 where "processFile sv path f s = Inr (b, s1)"
    "s' = (if b then s1\<lparr>anyFileChanged := True, changedFiles := changedFiles s1 @ [path]\<rparr> else s1)
            \<lparr>filePaths := filePaths s1 @ [path], progress_current := progress_current s1 + 1\<rparr>"
proof (cases "processFile sv path f s")
  case (Inl e)
  with assms show thesis by (simp add: start_callback_def)
next
  case (Inr r)
  obtain b s1 where r: "r = (b, s1)" by (cases r)
  with Inr assms have "s' = (if b then s1\<lparr>anyFileChanged := True, changedFiles := changedFiles s1 @ [path]\<rparr> else s1)
            \<lparr>filePaths := filePaths s1 @ [path], progress_current := progress_current s1 + 1\<rparr>"
    by (auto simp: start_callback_def Let_def)
  with that Inr r show thesis by blast
qed

lemma walk_inv_callback:
  assumes "start_callback sv f path s = Inr s'"
  shows "walk_inv s s'"
proof -
  from assms obtain b s1 where p: "processFile sv path f s = Inr (b, s1)"
    and s': "s' = (if b then s1\<lparr>anyFileChanged := True, changedFiles := changedFiles s1 @ [path]\<rparr> else s1)
            \<lparr>filePaths := filePaths s1 @ [path], progress_current := progress_current s1 + 1\<rparr>"
    by (rule start_callback_Inr)
  from walk_inv_processFile[OF p] show ?thesis
    by (auto simp: walk_inv_def s')
qed

lemma walk_inv_iterateDir:
  "iterateDir (start_callback sv) dir fullPath s = Inr s' \<Longrightarrow> walk_inv s s'"
proof (induction "start_callback sv" dir fullPath s arbitrary: s' rule: iterateDir.induct)
  case (1 fullPath s)
  then show ?case by (simp add: walk_inv_refl)
next
  case (2 entryName f rest fullPath s)
  show ?case
  proof (cases "hidden entryName")
    case True
    with 2 show ?thesis by simp
  next
    case False
    let ?s0 = "s\<lparr>progress_total := progress_total s + 2\<rparr>"
    from 2(3) False obtain s1 where cb: "start_callback sv f (join_path fullPath entryName) ?s0 = Inr s1"
      and r: "iterateDir (start_callback sv) rest fullPath s1 = Inr s'"
      by (auto split: sum.splits)
    have "walk_inv s ?s0" by (simp add: walk_inv_def)
    from walk_inv_trans[OF this walk_inv_callback[OF cb]] 2(2)[OF False cb r]
    show ?thesis by (rule walk_inv_trans)
  qed
next
  case (3 entryName dir rest fullPath s)
  show ?case
  proof (cases "join_path fullPath entryName \<in> set (folderIgnoreList s)")
    case True
    with 3 show ?thesis by simp
  next
    case False
    from 3(4) False obtain s1 where d: "iterateDir (start_callback sv) dir (join_path fullPath entryName) s = Inr s1"
      and r: "iterateDir (start_callback sv) rest fullPath s1 = Inr s'"
      by (auto split: sum.splits)
    from 3(2)[OF False d] 3(3)[OF False d r] show ?thesis by (rule walk_inv_trans)
  qed
qed

lemma unchanged_store: "store ls' = store ls \<Longrightarrow> unchanged sv ls' pf = unchanged sv ls pf"
  by (simp add: unchanged_def getLastModified_def store_get_def)

lemma callback_unchanged:
  assumes "unchanged sv (lightningStore s) (path, f)"
  shows "start_callback sv f path s =
     Inr (s\<lparr>lightningStore := setVisited (lightningStore s) path True (FileType_getId sv path),
            trace := trace s @ [StoreSetVisited (FileType_getId sv path) path],
            filePaths := filePaths s @ [path],
            progress_current := progress_current s + 1\<rparr>)"
proof -
  from assms have "getLastModified (lightningStore s) path (FileType_getId sv path) = Some (file_lastModified f)"
    by (simp add: unchanged_def)
  from processFile_same[OF this] show ?thesis
    unfolding start_callback_def by (simp add: Let_def)
qed

lemma unchanged_walk:
  assumes "\<forall>pf\<in>set (walk_files (folderIgnoreList s) dir fullPath). unchanged sv (lightningStore s) pf"
  shows "\<exists>s'. iterateDir (start_callback sv) dir fullPath s = Inr s'
     \<and> store (lightningStore s') = store (lightningStore s)
     \<and> visited (lightningStore s')
         = fold set_add (walk_keys sv (walk_files (folderIgnoreList s) dir fullPath)) (visited (lightningStore s))
     \<and> changedFiles s' = changedFiles s \<and> anyFileChanged s' = anyFileChanged s
     \<and> filePaths s' = filePaths s @ map fst (walk_files (folderIgnoreList s) dir fullPath)
     \<and> folderIgnoreList s' = folderIgnoreList s"
  using assms
proof (induction "start_callback sv" dir fullPath s rule: iterateDir.induct)
  case (1 fullPath s)
  then show ?case by (simp add: walk_keys_def)
next
  case (2 entryName f rest fullPath s)
  show ?case
  proof (cases "hidden entryName")
    case True
    with 2 show ?thesis by simp
  next
    case False
    let ?p = "join_path fullPath entryName"
    let ?s0 = "s\<lparr>progress_total := progress_total s + 2\<rparr>"
    let ?s1 = "?s0\<lparr>lightningStore := setVisited (lightningStore ?s0) ?p True (FileType_getId sv ?p),
            trace := trace ?s0 @ [StoreSetVisited (FileType_getId sv ?p) ?p],
            filePaths := filePaths ?s0 @ [?p],
            progress_current := progress_current ?s0 + 1\<rparr>"
    from 2(3) False have u: "unchanged sv (lightningStore s) (?p, f)"
      and ur: "\<forall>pf\<in>set (walk_files (folderIgnoreList s) rest fullPath). unchanged sv (lightningStore s) pf"
      by simp_all
    from u have "unchanged sv (lightningStore ?s0) (?p, f)" by simp
    from callback_unchanged[OF this] have cb: "start_callback sv f ?p ?s0 = Inr ?s1" .
    have st: "store (lightningStore ?s1) = store (lightningStore s)" "folderIgnoreList ?s1 = folderIgnoreList s"
      by (simp_all add: setVisited_def)
    from ur have "\<forall>pf\<in>set (walk_files (folderIgnoreList ?s1) rest fullPath). unchanged sv (lightningStore ?s1) pf"
      unfolding st(2) using unchanged_store[OF st(1)] by simp
    from 2(2)[OF False cb this] obtain s' where s':
      "iterateDir (start_callback sv) rest fullPath ?s1 = Inr s'"
      "store (lightningStore s') = store (lightningStore ?s1)"
      "visited (lightningStore s')
         = fold set_add (walk_keys sv (walk_files (folderIgnoreList ?s1) rest fullPath)) (visited (lightningStore ?s1))"
      "changedFiles s' = changedFiles ?s1" "anyFileChanged s' = anyFileChanged ?s1"
      "filePaths s' = filePaths ?s1 @ map fst (walk_files (folderIgnoreList ?s1) rest fullPath)"
      "folderIgnoreList s' = folderIgnoreList ?s1"
      by blast
    have it: "iterateDir (start_callback sv) (FileEntry entryName f # rest) fullPath s = Inr s'"
      unfolding iterateDir.simps cb using False s'(1) by simp
    have v: "visited (lightningStore ?s1) = set_add (FileType_getId sv ?p, ?p) (visited (lightningStore s))"
      by (simp add: setVisited_def)
    show ?thesis
      using it s'(2-7) False unfolding st v
      by (simp add: walk_keys_def)
  qed
next
  case (3 entryName dir rest fullPath s)
  show ?case
  proof (cases "join_path fullPath entryName \<in> set (folderIgnoreList s)")
    case True
    with 3 show ?thesis by simp
  next
    case False
    let ?p = "join_path fullPath entryName"
    from 3(4) False have ud: "\<forall>pf\<in>set (walk_files (folderIgnoreList s) dir ?p). unchanged sv (lightningStore s) pf"
      and ur: "\<forall>pf\<in>set (walk_files (folderIgnoreList s) rest fullPath). unchanged sv (lightningStore s) pf"
      by simp_all
    from 3(2)[OF False ud] obtain s1 where s1:
      "iterateDir (start_callback sv) dir ?p s = Inr s1"
      "store (lightningStore s1) = store (lightningStore s)"
      "visited (lightningStore s1)
         = fold set_add (walk_keys sv (walk_files (folderIgnoreList s) dir ?p)) (visited (lightningStore s))"
      "changedFiles s1 = changedFiles s" "anyFileChanged s1 = anyFileChanged s"
      "filePaths s1 = filePaths s @ map fst (walk_files (folderIgnoreList s) dir ?p)"
      "folderIgnoreList s1 = folderIgnoreList s"
      by blast
    from ur have "\<forall>pf\<in>set (walk_files (folderIgnoreList s1) rest fullPath). unchanged sv (lightningStore s1) pf"
      unfolding s1(7) using unchanged_store[OF s1(2)] by simp
    from 3(3)[OF False s1(1) this] obtain s' where s':
      "iterateDir (start_callback sv) rest fullPath s1 = Inr s'"
      "store (lightningStore s') = store (lightningStore s1)"
      "visited (lightningStore s')
         = fold set_add (walk_keys sv (walk_files (folderIgnoreList s1) rest fullPath)) (visited (lightningStore s1))"
      "changedFiles s' = changedFiles s1" "anyFileChanged s' = anyFileChanged s1"
      "filePaths s' = filePaths s1 @ map fst (walk_files (folderIgnoreList s1) rest fullPath)"
      "folderIgnoreList s' = folderIgnoreList s1"
      by blast
    have it: "iterateDir (start_callback sv) (DirectoryEntry entryName dir # rest) fullPath s = Inr s'"
      using False s1(1) s'(1) by simp
    show ?thesis
      using it s'(2-7) False unfolding s1(2-7)
      by (simp add: walk_keys_def)
  qed
qed

lemma length_fold_set_add: "length (fold set_add xs []) = card (set xs)"
proof -
  have "distinct (fold set_add xs [])" by (simp add: distinct_fold_set_add)
  then have "length (fold set_add xs []) = card (set (fold set_add xs []))"
    by (simp add: distinct_card)
  then show ?thesis by (simp add: set_fold_set_add)
qed

lemma prepared_frame:
  "store (lightningStore (prepared sv s)) = store (lightningStore s)"
  "visited (lightningStore (prepared sv s)) = []"
  "totalFiles (lightningStore (prepared sv s)) = length (store (lightningStore s))"
  "trace (prepared sv s) = trace s"
  by (simp_all add: prepared_def store_setup_def loadIgnoreFolders_def Let_def split: option.splits)

lemma start_full_walk:
  "\<not> (noFullLightningCacheRefresh sv \<and> length (allFiles (lightningStore (prepared sv s))) > 0)
   \<Longrightarrow> start sv s = full_walk sv (prepared sv s)"
  unfolding start_def prepared_def Let_def by (auto split: if_splits)

lemma full_walk_Inr:
  assumes "full_walk sv s = Inr ((paths, changed), s')"
  obtains s4 where
    "iterateDir (start_callback sv) (baseDirectory sv) []
       (s\<lparr>anyFileChanged := False, filePaths := [], changedFiles := []\<rparr>) = Inr s4"
    "s' = (if anyFileChanged s4 \<or> visitedFiles (lightningStore s4) \<noteq> totalFiles (lightningStore s4)
           then logged StoreSave s4 else s4)"
    "paths = filePaths s4" "changed = changedFiles s4"
proof (cases "iterateDir (start_callback sv) (baseDirectory sv) []
       (s\<lparr>anyFileChanged := False, filePaths := [], changedFiles := []\<rparr>)")
  case (Inl e)
  with assms show thesis by (simp add: full_walk_def)
next
  case (Inr s4)
  with assms have "s' = (if anyFileChanged s4 \<or> visitedFiles (lightningStore s4) \<noteq> totalFiles (lightningStore s4)
           then logged StoreSave s4 else s4)" "paths = filePaths s4" "changed = changedFiles s4"
    by (auto simp: full_walk_def Let_def logged_def split: if_splits)
  with that Inr show thesis by blast
qed

text \<open>
  When \<open>start\<close> walks the directory (the fast path is not taken) and returns, it has
  called \<open>saveStore\<close> if and only if the list of changed files is not empty or the
  number of visited files differs from the known total.  When every file of the walk
  has a stored record with the file's timestamp, \<open>start\<close> returns the walked paths
  with an empty list of changed files and leaves the records as they are.
\<close>

lemma start_persists:
  assumes walk: "\<not> (noFullLightningCacheRefresh sv \<and> length (allFiles (lightningStore (prepared sv s))) > 0)"
  shows "(\<forall>paths changed s'. start sv s = Inr ((paths, changed), s') \<longrightarrow>
            (saved_since (trace s) s' \<longleftrightarrow>
               changed \<noteq> [] \<or> visitedFiles (lightningStore s') \<noteq> totalFiles (lightningStore s')))
     \<and> ((\<forall>pf\<in>set (walk_files (folderIgnoreList (prepared sv s)) (baseDirectory sv) []).
             unchanged sv (lightningStore s) pf) \<longrightarrow>
          (\<exists>s'. start sv s
                 = Inr ((map fst (walk_files (folderIgnoreList (prepared sv s)) (baseDirectory sv) []), []), s')
             \<and> store (lightningStore s') = store (lightningStore s)
             \<and> (saved_since (trace s) s' \<longleftrightarrow>
                  card (set (walk_keys sv (walk_files (folderIgnoreList (prepared sv s)) (baseDirectory sv) [])))
                    \<noteq> length (store (lightningStore s)))))"
proof (intro conjI allI impI)
  fix paths changed s'
  assume "start sv s = Inr ((paths, changed), s')"
  with start_full_walk[OF walk] have "full_walk sv (prepared sv s) = Inr ((paths, changed), s')" by simp
  then obtain s4 where it: "iterateDir (start_callback sv) (baseDirectory sv) []
       ((prepared sv s)\<lparr>anyFileChanged := False, filePaths := [], changedFiles := []\<rparr>) = Inr s4"
    and s': "s' = (if anyFileChanged s4 \<or> visitedFiles (lightningStore s4) \<noteq> totalFiles (lightningStore s4)
           then logged StoreSave s4 else s4)"
    and ch: "changed = changedFiles s4"
    by (rule full_walk_Inr)
  from walk_inv_iterateDir[OF it] obtain evs where
    tr: "trace s4 = trace s @ evs" "StoreSave \<notin> set evs"
    and flag: "anyFileChanged s4 \<longleftrightarrow> changedFiles s4 \<noteq> []"
    by (auto simp: walk_inv_def prepared_frame)
  show "saved_since (trace s) s' \<longleftrightarrow>
          changed \<noteq> [] \<or> visitedFiles (lightningStore s') \<noteq> totalFiles (lightningStore s')"
    using tr flag by (auto simp: s' ch saved_since_def logged_def)
next
  let ?s0 = "(prepared sv s)\<lparr>anyFileChanged := False, filePaths := [], changedFiles := []\<rparr>"
  let ?files = "walk_files (folderIgnoreList (prepared sv s)) (baseDirectory sv) []"
  assume u: "\<forall>pf\<in>set ?files. unchanged sv (lightningStore s) pf"
  have st: "store (lightningStore ?s0) = store (lightningStore s)" by (simp add: prepared_frame)
  from u have "\<forall>pf\<in>set (walk_files (folderIgnoreList ?s0) (baseDirectory sv) []). unchanged sv (lightningStore ?s0) pf"
    using unchanged_store[OF st] by simp
  from unchanged_walk[OF this] obtain s4 where it: "iterateDir (start_callback sv) (baseDirectory sv) [] ?s0 = Inr s4"
    and s4: "store (lightningStore s4) = store (lightningStore s)"
      "visited (lightningStore s4) = fold set_add (walk_keys sv ?files) []"
      "changedFiles s4 = []" "\<not> anyFileChanged s4" "filePaths s4 = map fst ?files"
    by (auto simp: prepared_frame)
  from walk_inv_iterateDir[OF it] obtain evs where
    tr: "trace s4 = trace s @ evs" "StoreSave \<notin> set evs"
    and tot: "totalFiles (lightningStore s4) = length (store (lightningStore s))"
    by (auto simp: walk_inv_def prepared_frame)
  let ?s' = "(if anyFileChanged s4 \<or> visitedFiles (lightningStore s4) \<noteq> totalFiles (lightningStore s4)
           then logged StoreSave s4 else s4)"
  have "start sv s = Inr ((map fst ?files, []), ?s')"
    unfolding start_full_walk[OF walk] full_walk_def Let_def it
    using s4 by (simp add: logged_def)
  moreover have "store (lightningStore ?s') = store (lightningStore s)"
    using s4 by (simp add: logged_def)
  moreover have "saved_since (trace s) ?s' \<longleftrightarrow> card (set (walk_keys sv ?files)) \<noteq> length (store (lightningStore s))"
    using tr s4 tot by (auto simp: saved_since_def logged_def visitedFiles_def length_fold_set_add)
  ultimately show "\<exists>s'. start sv s = Inr ((map fst ?files, []), s')
             \<and> store (lightningStore s') = store (lightningStore s)
             \<and> (saved_since (trace s) s' \<longleftrightarrow>
                  card (set (walk_keys sv ?files)) \<noteq> length (store (lightningStore s)))"
    by blast
qed

text \<open>
  Claim C4 fails on the code.  On every other path on which \<open>processFile\<close> returns
  \<open>true\<close> a record with the file's timestamp has been added, so that the next scan
  finds the file unchanged.  \<open>processText\<close> returns before any \<open>add\<close> when the script of the file
  type does not evaluate to a function.  The file type of \<open>en_US.lang\<close> has such a
  script: the file never gets a stored timestamp, and a second scan of the same project,
  with nothing changed in between, reports the file as changed and saves the store again.
\<close>

theorem rescan_reports_change:
  "map_sum id fst second_scan = Inr ([''en_US.lang''], [''en_US.lang''])
   \<and> map_sum id (trace \<circ> snd) first_scan
       = Inr [GetLightningCache ''en_US.lang'', RunScript ''en_US.lang'', StoreSave]
   \<and> map_sum id (trace \<circ> snd) second_scan
       = Inr [GetLightningCache ''en_US.lang'', RunScript ''en_US.lang'', StoreSave,
              GetLightningCache ''en_US.lang'', RunScript ''en_US.lang'', StoreSave]"
  by code_simp

lemma known_project_facts:
  "\<not> (noFullLightningCacheRefresh (sample_services known_project)
       \<and> length (allFiles (lightningStore (prepared (sample_services known_project) known_scan))) > 0)"
  "walk_files (folderIgnoreList (prepared (sample_services known_project) known_scan))
       (baseDirectory (sample_services known_project)) []
     = [(''root/a.json'', \<lparr>file_lastModified = 100, file_text = sample_text\<rparr>)]"
  "unchanged (sample_services known_project) (lightningStore known_scan)
     (''root/a.json'', \<lparr>file_lastModified = 100, file_text = sample_text\<rparr>)"
  "length (store (lightningStore known_scan)) = 1"
  "trace known_scan = []"
  by code_simp+

lemma start_known_project:
  "\<not> (noFullLightningCacheRefresh (sample_services known_project)
       \<and> length (allFiles (lightningStore (prepared (sample_services known_project) known_scan))) > 0)
   \<and> walk_files (folderIgnoreList (prepared (sample_services known_project) known_scan))
       (baseDirectory (sample_services known_project)) []
     = [(''root/a.json'', \<lparr>file_lastModified = 100, file_text = sample_text\<rparr>)]
   \<and> unchanged (sample_services known_project) (lightningStore known_scan)
     (''root/a.json'', \<lparr>file_lastModified = 100, file_text = sample_text\<rparr>)
   \<and> (\<exists>s'. start (sample_services known_project) known_scan = Inr (([''root/a.json''], []), s')
          \<and> store (lightningStore s') = store (lightningStore known_scan)
          \<and> \<not> saved_since (trace known_scan) s'
          \<and> visitedFiles (lightningStore s') = totalFiles (lightningStore s'))"
proof -
  let ?sv = "sample_services known_project"
  let ?files = "walk_files (folderIgnoreList (prepared ?sv known_scan)) (baseDirectory ?sv) []"
  have u: "\<forall>pf\<in>set ?files. unchanged ?sv (lightningStore known_scan) pf"
    unfolding known_project_facts(2) using known_project_facts(3) by simp
  have k: "card (set (walk_keys ?sv ?files)) = length (store (lightningStore known_scan))"
    unfolding known_project_facts(2,4) by (simp add: walk_keys_def)
  from start_persists[OF known_project_facts(1)] u obtain s' where
    s': "start ?sv known_scan = Inr ((map fst ?files, []), s')"
      "store (lightningStore s') = store (lightningStore known_scan)"
      "saved_since (trace known_scan) s' \<longleftrightarrow>
          card (set (walk_keys ?sv ?files)) \<noteq> length (store (lightningStore known_scan))"
    by blast
  from s'(3) k have ns: "\<not> saved_since (trace known_scan) s'" by simp
  from s'(1) have r: "start ?sv known_scan = Inr (([''root/a.json''], []), s')"
    unfolding known_project_facts(2) by simp
  from start_persists[OF known_project_facts(1)] r ns
  have "visitedFiles (lightningStore s') = totalFiles (lightningStore s')" by blast
  with r s'(2) ns known_project_facts(1,2,3) show ?thesis by blast
qed

end
